theory Spec2Isabelle
  imports Main
begin

section \<open>Data model (package models)\<close>

text \<open>
  Values that arrive from a Socket.IO client are decoded JSON: the handlers receive
  \<^verbatim>\<open>args ...any\<close> and inspect them with type assertions.
\<close>

datatype jvalue =
    JNull
  | JBool bool
  | JNumber int
  | JString string
  | JObject "(string \<times> jvalue) list"

text \<open>
  \<^verbatim>\<open>v, _ := data[k].(string)\<close>: the zero value (the empty string) when the key is
  missing or the value is not a string.
\<close>

definition get_string :: "(string \<times> jvalue) list \<Rightarrow> string \<Rightarrow> string" where
  "get_string data k = (case map_of data k of Some (JString s) \<Rightarrow> s | _ \<Rightarrow> [])"

text \<open>A \<^verbatim>\<open>time.Time\<close> is modelled by its count of nanoseconds since the Unix epoch.\<close>

type_synonym time = int

definition UnixNano :: "time \<Rightarrow> int" where
  "UnixNano t = t"

definition Unix :: "time \<Rightarrow> int" where
  "Unix t = t div 1000000000"

record User =
  ID :: string
  Name :: string
  Avatar :: string
  Status :: string
  LastSeen :: time
  Metadata :: "(string \<times> jvalue) list"

text \<open>
  \<^verbatim>\<open>type MessageType string\<close>: the handler converts whatever string the client sent.
  \<^verbatim>\<open>Metadata interface{}\<close> is \<open>JNull\<close> when the field is left out of the literal.
\<close>

type_synonym MessageType = string

record Message =
  ID :: string
  Type :: MessageType
  Content :: string
  Sender :: string
  Receiver :: string
  Room :: string
  Timestamp :: time
  Metadata :: jvalue

section \<open>Outbound events (the Socket.IO server's emit calls)\<close>

text \<open>
  \<^verbatim>\<open>h.server.Emit\<close> addresses every connected socket, \<^verbatim>\<open>h.server.To(room).Emit\<close> the
  sockets that joined the room, \<^verbatim>\<open>client.Emit\<close> one socket.
\<close>

datatype target = ToAll | ToRoom string | ToClient string

datatype pvalue = VStr string | VInt int | VMsg Message

datatype payload = PObj "(string \<times> pvalue) list" | PMsg Message

datatype emission = Emit (em_target: target) (em_event: string) (em_data: payload)

section \<open>Formatting (\<^verbatim>\<open>fmt.Sprintf\<close> with \<^verbatim>\<open>%d\<close>)\<close>

definition digit_char :: "nat \<Rightarrow> char" where
  "digit_char d = char_of (48 + d)"

function show_nat :: "nat \<Rightarrow> string" where
  "show_nat n = (if n < 10 then [digit_char n] else show_nat (n div 10) @ [digit_char (n mod 10)])"
  by pat_completeness auto
termination
  by (relation "measure id") auto

declare show_nat.simps [simp del]

definition show_int :: "int \<Rightarrow> string" where
  "show_int i = (if i < 0 then CHR ''-'' # show_nat (nat (- i)) else show_nat (nat i))"

section \<open>The Redis service (package services)\<close>

text \<open>
  The Redis server is outside the program. Its contents are a key-value store, the list
  of what was published on each channel, and \<open>faults\<close>: the outcomes of the commands
  still to come, one entry per command (\<open>True\<close>: the command returns an error and has
  no effect). When the list is used up every command succeeds. Key expiry (24 hours for a
  message, 12 hours for a user session) is not modelled.
\<close>

datatype rvalue = RMessage Message | RString string | RSet "string set"

record redis =
  kv :: "string \<rightharpoonup> rvalue"
  published :: "(string \<times> Message) list"
  faults :: "bool list"

datatype error = Error string

text \<open>One round trip to the server: whether it succeeded, and the remaining outcomes.\<close>

definition command :: "redis \<Rightarrow> bool \<times> redis" where
  "command r = (case faults r of [] \<Rightarrow> (True, r) | f # fs \<Rightarrow> (\<not> f, r\<lparr>faults := fs\<rparr>))"

definition redis_Set :: "redis \<Rightarrow> string \<Rightarrow> rvalue \<Rightarrow> bool \<times> redis" where
  "redis_Set r key v =
     (case command r of
        (True, r') \<Rightarrow> (True, r'\<lparr>kv := (kv r')(key \<mapsto> v)\<rparr>)
      | (False, r') \<Rightarrow> (False, r'))"

definition redis_Del :: "redis \<Rightarrow> string \<Rightarrow> bool \<times> redis" where
  "redis_Del r key =
     (case command r of
        (True, r') \<Rightarrow> (True, r'\<lparr>kv := (kv r')(key := None)\<rparr>)
      | (False, r') \<Rightarrow> (False, r'))"

definition members_of :: "redis \<Rightarrow> string \<Rightarrow> string set" where
  "members_of r key = (case kv r key of Some (RSet s) \<Rightarrow> s | _ \<Rightarrow> {})"

definition redis_SAdd :: "redis \<Rightarrow> string \<Rightarrow> string \<Rightarrow> bool \<times> redis" where
  "redis_SAdd r key x =
     (case command r of
        (True, r') \<Rightarrow> (True, r'\<lparr>kv := (kv r')(key \<mapsto> RSet (insert x (members_of r' key)))\<rparr>)
      | (False, r') \<Rightarrow> (False, r'))"

definition redis_SRem :: "redis \<Rightarrow> string \<Rightarrow> string \<Rightarrow> bool \<times> redis" where
  "redis_SRem r key x =
     (case command r of
        (True, r') \<Rightarrow> (True, r'\<lparr>kv := (kv r')(key \<mapsto> RSet (members_of r' key - {x}))\<rparr>)
      | (False, r') \<Rightarrow> (False, r'))"

text \<open>
  Each service function returns the Go \<^verbatim>\<open>error\<close> (\<open>None\<close> for \<^verbatim>\<open>nil\<close>) and the
  server's state afterwards. \<^verbatim>\<open>json.Marshal\<close> of a message does not fail on the
  values modelled here, so the stored and the published value is the message itself.
\<close>

definition PublishMessage :: "redis \<Rightarrow> string \<Rightarrow> Message \<Rightarrow> error option \<times> redis" where
  "PublishMessage r channel message =
     (case command r of
        (False, r') \<Rightarrow> (Some (Error ''failed to publish message''), r')
      | (True, r') \<Rightarrow> (None, r'\<lparr>published := published r' @ [(channel, message)]\<rparr>))"

definition StoreMessage :: "redis \<Rightarrow> Message \<Rightarrow> error option \<times> redis" where
  "StoreMessage r message =
     (let key = ''message:'' @ Message.ID message in
      case redis_Set r key (RMessage message) of
        (False, r') \<Rightarrow> (Some (Error ''failed to store message''), r')
      | (True, r') \<Rightarrow> (None, r'))"

definition StoreUserSession :: "redis \<Rightarrow> string \<Rightarrow> string \<Rightarrow> error option \<times> redis" where
  "StoreUserSession r userID sessionID =
     (let key = ''user_session:'' @ userID in
      case redis_Set r key (RString sessionID) of
        (False, r') \<Rightarrow> (Some (Error ''failed to store user session''), r')
      | (True, r') \<Rightarrow> (None, r'))"

definition DeleteUserSession :: "redis \<Rightarrow> string \<Rightarrow> error option \<times> redis" where
  "DeleteUserSession r userID =
     (let key = ''user_session:'' @ userID in
      case redis_Del r key of
        (False, r') \<Rightarrow> (Some (Error ''failed to delete user session''), r')
      | (True, r') \<Rightarrow> (None, r'))"

definition AddUserToRoom :: "redis \<Rightarrow> string \<Rightarrow> string \<Rightarrow> error option \<times> redis" where
  "AddUserToRoom r roomID userID =
     (let key = ''room_members:'' @ roomID in
      case redis_SAdd r key userID of
        (False, r') \<Rightarrow> (Some (Error ''failed to add user to room''), r')
      | (True, r') \<Rightarrow> (None, r'))"

definition RemoveUserFromRoom :: "redis \<Rightarrow> string \<Rightarrow> string \<Rightarrow> error option \<times> redis" where
  "RemoveUserFromRoom r roomID userID =
     (let key = ''room_members:'' @ roomID in
      case redis_SRem r key userID of
        (False, r') \<Rightarrow> (Some (Error ''failed to remove user from room''), r')
      | (True, r') \<Rightarrow> (None, r'))"

text \<open>
  \<^verbatim>\<open>SubscribeToChannel\<close>: after the subscription is confirmed, every payload received
  on the channel is unmarshalled; one that does not unmarshal is logged and skipped, the
  others are handed to the callback. \<open>unmarshal\<close> stands for \<^verbatim>\<open>json.Unmarshal\<close> into a
  message; \<open>payloads\<close> are those received on \<open>channel\<close> until it is closed. The result
  is what the callbacks emitted, in order.
\<close>

fun receive_loop :: "(string \<Rightarrow> Message option) \<Rightarrow> (Message \<Rightarrow> 'a list) \<Rightarrow> string list \<Rightarrow> 'a list" where
  "receive_loop unmarshal callback [] = []"
| "receive_loop unmarshal callback (p # ps) =
     (case unmarshal p of
        None \<Rightarrow> receive_loop unmarshal callback ps
      | Some message \<Rightarrow> callback message @ receive_loop unmarshal callback ps)"

definition SubscribeToChannel ::
  "redis \<Rightarrow> (string \<Rightarrow> Message option) \<Rightarrow> string \<Rightarrow> string list \<Rightarrow> (Message \<Rightarrow> 'a list)
     \<Rightarrow> error option \<times> 'a list" where
  "SubscribeToChannel r unmarshal channel payloads callback =
     (case command r of
        (False, r') \<Rightarrow> (Some (Error ''failed to subscribe to channel''), [])
      | (True, r') \<Rightarrow> (None, receive_loop unmarshal callback payloads))"

section \<open>The Socket.IO handler (package handlers)\<close>

text \<open>
  \<open>sessions\<close> and \<open>userSessions\<close> are the two Go maps of \<^verbatim>\<open>SocketIOHandler\<close>.
  \<open>rooms\<close> is the state of the Socket.IO server that the handler drives through
  \<^verbatim>\<open>client.Join\<close> and \<^verbatim>\<open>client.Leave\<close>: for every connected socket, the rooms it has
  joined. \<open>clock\<close> gives the successive readings of \<^verbatim>\<open>time.Now()\<close> and \<open>ticks\<close>
  counts the readings taken so far. Calls of the logger change nothing that is modelled
  and are left out. The handlers of \<^verbatim>\<open>file_upload\<close>, \<^verbatim>\<open>typing\<close> and
  \<^verbatim>\<open>stop_typing\<close> and the HTTP endpoints are outside this development.
\<close>

record SocketIOHandler =
  sessions :: "string \<rightharpoonup> User"
  userSessions :: "string \<rightharpoonup> string list"
  redisService :: redis
  rooms :: "string \<rightharpoonup> string set"
  clock :: "nat \<Rightarrow> time"
  ticks :: nat

definition time_Now :: "SocketIOHandler \<Rightarrow> time \<times> SocketIOHandler" where
  "time_Now h = (clock h (ticks h), h\<lparr>ticks := Suc (ticks h)\<rparr>)"

definition generateMessageID :: "SocketIOHandler \<Rightarrow> string \<times> SocketIOHandler" where
  "generateMessageID h =
     (let (t1, h1) = time_Now h;
          (t2, h2) = time_Now h1
      in (show_int (UnixNano t1) @ ''_'' @ show_int (Unix t2), h2))"

text \<open>Indexing a Go map of slices at a missing key gives the nil slice, of length 0.\<close>

definition sessions_of :: "SocketIOHandler \<Rightarrow> string \<Rightarrow> string list" where
  "sessions_of h userName = (case userSessions h userName of None \<Rightarrow> [] | Some l \<Rightarrow> l)"

definition sendError :: "string \<Rightarrow> string \<Rightarrow> emission list" where
  "sendError client message = [Emit (ToClient client) ''error'' (PObj [(''message'', VStr message)])]"

definition broadcastUserStatus :: "string \<Rightarrow> string \<Rightarrow> emission list" where
  "broadcastUserStatus userName status =
     [Emit ToAll ''user_status'' (PObj [(''userName'', VStr userName), (''status'', VStr status)])]"

fun devices_loop :: "string list \<Rightarrow> string \<Rightarrow> payload \<Rightarrow> string \<Rightarrow> emission list" where
  "devices_loop [] event data excludeSessionID = []"
| "devices_loop (sessionID # rest) event data excludeSessionID =
     (if excludeSessionID \<noteq> [] \<and> sessionID = excludeSessionID
      then devices_loop rest event data excludeSessionID
      else Emit (ToRoom sessionID) event data # devices_loop rest event data excludeSessionID)"

definition broadcastToUserDevices ::
  "SocketIOHandler \<Rightarrow> string \<Rightarrow> string \<Rightarrow> payload \<Rightarrow> string \<Rightarrow> emission list" where
  "broadcastToUserDevices h userName event data excludeSessionID =
     (case userSessions h userName of
        None \<Rightarrow> []
      | Some sids \<Rightarrow> devices_loop sids event data excludeSessionID)"

definition broadcastMessage :: "SocketIOHandler \<Rightarrow> Message \<Rightarrow> emission list" where
  "broadcastMessage h message =
     (if Room message \<noteq> [] then [Emit (ToRoom (Room message)) ''message'' (PMsg message)]
      else if Receiver message \<noteq> [] then
        broadcastToUserDevices h (Receiver message) ''message'' (PObj [(''message'', VMsg message)]) []
      else [Emit ToAll ''message'' (PMsg message)])"

text \<open>The connection event: every new socket joins the private room named by its id.\<close>

definition connection :: "SocketIOHandler \<Rightarrow> string \<Rightarrow> SocketIOHandler" where
  "connection h sessionID =
     h\<lparr>rooms := (rooms h)(sessionID \<mapsto> insert sessionID (case rooms h sessionID of None \<Rightarrow> {} | Some rs \<Rightarrow> rs))\<rparr>"

text \<open>The \<^verbatim>\<open>join\<close> event of the socket \<open>sessionID\<close>.\<close>

definition join :: "SocketIOHandler \<Rightarrow> string \<Rightarrow> jvalue list \<Rightarrow> SocketIOHandler \<times> emission list" where
  "join h sessionID args =
     (case args of
        [] \<Rightarrow> (h, sendError sessionID ''No user data provided'')
      | JObject data # _ \<Rightarrow>
          (let userName = get_string data ''userName'';
               deviceInfo0 = get_string data ''deviceInfo'';
               avatar = get_string data ''avatar''
           in if userName = [] then (h, sendError sessionID ''User name is required'')
              else
                (let deviceInfo = (if deviceInfo0 = [] then ''Unknown Device'' else deviceInfo0);
                     (now, h1) = time_Now h;
                     user = \<lparr>User.ID = userName, Name = userName, Avatar = avatar, Status = ''online'',
                             LastSeen = now,
                             User.Metadata = [(''deviceInfo'', JString deviceInfo), (''sessionId'', JString sessionID)]\<rparr>;
                     h2 = h1\<lparr>sessions := (sessions h1)(sessionID \<mapsto> user)\<rparr>;
                     h3 = (if userSessions h2 userName = None
                           then h2\<lparr>userSessions := (userSessions h2)(userName \<mapsto> [])\<rparr> else h2);
                     h4 = h3\<lparr>userSessions := (userSessions h3)(userName \<mapsto> sessions_of h3 userName @ [sessionID])\<rparr>;
                     (_, r) = StoreUserSession (redisService h4) userName sessionID;
                     h5 = h4\<lparr>redisService := r\<rparr>;
                     deviceCount = int (length (sessions_of h5 userName))
                 in (h5,
                     (if length (sessions_of h5 userName) = 1 then broadcastUserStatus userName ''online'' else [])
                     @ [Emit (ToClient sessionID) ''joined''
                          (PObj [(''userId'', VStr userName), (''userName'', VStr userName),
                                 (''deviceInfo'', VStr deviceInfo), (''status'', VStr ''online''),
                                 (''deviceCount'', VInt deviceCount)])]
                     @ broadcastToUserDevices h5 userName ''device_connected''
                          (PObj [(''deviceInfo'', VStr deviceInfo), (''sessionId'', VStr sessionID),
                                 (''deviceCount'', VInt deviceCount)])
                          sessionID)))
      | _ # _ \<Rightarrow> (h, sendError sessionID ''Invalid user data''))"

definition join_room :: "SocketIOHandler \<Rightarrow> string \<Rightarrow> jvalue list \<Rightarrow> SocketIOHandler \<times> emission list" where
  "join_room h sessionID args =
     (case args of
        [] \<Rightarrow> (h, sendError sessionID ''No room data provided'')
      | JObject data # _ \<Rightarrow>
          (let roomID = get_string data ''roomId'';
               userName = get_string data ''userName''
           in if roomID = [] \<or> userName = [] then (h, sendError sessionID ''Invalid room or user data'')
              else
                (let h1 = h\<lparr>rooms := (rooms h)(sessionID \<mapsto>
                            insert roomID (case rooms h sessionID of None \<Rightarrow> {} | Some rs \<Rightarrow> rs))\<rparr>;
                     (_, r) = AddUserToRoom (redisService h1) roomID userName;
                     h2 = h1\<lparr>redisService := r\<rparr>
                 in (h2,
                     [Emit (ToRoom roomID) ''user_joined_room''
                        (PObj [(''userName'', VStr userName), (''roomId'', VStr roomID)]),
                      Emit (ToClient sessionID) ''room_joined''
                        (PObj [(''roomId'', VStr roomID), (''userName'', VStr userName)])])))
      | _ # _ \<Rightarrow> (h, sendError sessionID ''Invalid room data''))"

definition leave_room :: "SocketIOHandler \<Rightarrow> string \<Rightarrow> jvalue list \<Rightarrow> SocketIOHandler \<times> emission list" where
  "leave_room h sessionID args =
     (case args of
        [] \<Rightarrow> (h, sendError sessionID ''No room data provided'')
      | JObject data # _ \<Rightarrow>
          (let roomID = get_string data ''roomId'';
               userName = get_string data ''userName''
           in if roomID = [] \<or> userName = [] then (h, sendError sessionID ''Invalid room or user data'')
              else
                (let h1 = h\<lparr>rooms := (rooms h)(sessionID \<mapsto>
                            (case rooms h sessionID of None \<Rightarrow> {} | Some rs \<Rightarrow> rs) - {roomID})\<rparr>;
                     (_, r) = RemoveUserFromRoom (redisService h1) roomID userName;
                     h2 = h1\<lparr>redisService := r\<rparr>
                 in (h2,
                     [Emit (ToRoom roomID) ''user_left_room''
                        (PObj [(''userName'', VStr userName), (''roomId'', VStr roomID)])])))
      | _ # _ \<Rightarrow> (h, sendError sessionID ''Invalid room data''))"

text \<open>
  The \<^verbatim>\<open>disconnect\<close> event. The loop removes the first occurrence of the session id from
  the user's list and stops (\<^verbatim>\<open>break\<close>); the reason argument is only logged.
\<close>

fun remove_session :: "string list \<Rightarrow> string \<Rightarrow> string list" where
  "remove_session [] sessionID = []"
| "remove_session (sid # rest) sessionID =
     (if sid = sessionID then rest else sid # remove_session rest sessionID)"

definition disconnect :: "SocketIOHandler \<Rightarrow> string \<Rightarrow> SocketIOHandler \<times> emission list" where
  "disconnect h sessionID =
     (case sessions h sessionID of
        None \<Rightarrow> (h, [])
      | Some user \<Rightarrow>
          (let userName = User.ID user;
               (h3, out) =
                 (case userSessions h userName of
                    None \<Rightarrow> (h, [])
                  | Some sids \<Rightarrow>
                      (let h1 = h\<lparr>userSessions := (userSessions h)(userName \<mapsto> remove_session sids sessionID)\<rparr>
                       in if length (sessions_of h1 userName) = 0 then
                            (let h2 = h1\<lparr>userSessions := (userSessions h1)(userName := None)\<rparr>;
                                 (_, r) = DeleteUserSession (redisService h2) userName
                             in (h2\<lparr>redisService := r\<rparr>, broadcastUserStatus userName ''offline''))
                          else
                            (h1, broadcastToUserDevices h1 userName ''device_disconnected''
                                   (PObj [(''sessionId'', VStr sessionID),
                                          (''deviceCount'', VInt (int (length (sessions_of h1 userName))))])
                                   [])))
           in (h3\<lparr>sessions := (sessions h3)(sessionID := None)\<rparr>, out)))"

text \<open>
  The \<^verbatim>\<open>message\<close> event. \<open>message_loop\<close> is the body
  \<^verbatim>\<open>for i := 0; i < 10; i++ { ... }\<close>, from the iteration \<open>i\<close> on; a failed
  \<^verbatim>\<open>StoreMessage\<close> leaves the handler through \<^verbatim>\<open>return\<close>.
\<close>

function message_loop ::
  "SocketIOHandler \<Rightarrow> string \<Rightarrow> string \<Rightarrow> string \<Rightarrow> string \<Rightarrow> string \<Rightarrow> string \<Rightarrow> nat
     \<Rightarrow> SocketIOHandler \<times> emission list" where
  "message_loop h client messageType content sender roomID receiver i =
     (if i < 10 then
        (let (mid, h1) = generateMessageID h;
             (now, h2) = time_Now h1;
             message = \<lparr>Message.ID = mid, Type = messageType, Content = content, Sender = sender,
                        Receiver = receiver, Room = roomID, Timestamp = now, Message.Metadata = JNull\<rparr>;
             (err, r) = StoreMessage (redisService h2) message;
             h3 = h2\<lparr>redisService := r\<rparr>
         in case err of
              Some e \<Rightarrow> (h3, sendError client ''Failed to send message'')
            | None \<Rightarrow>
                (let message' = message\<lparr>Content := Content message @ ''Message '' @ show_int (int i)\<rparr>;
                     out = broadcastMessage h3 message';
                     (h4, outs) = message_loop h3 client messageType content sender roomID receiver (i + 1)
                 in (h4, out @ outs)))
      else (h, []))"
  by pat_completeness auto
termination
  by (relation "measure (\<lambda>(h, client, messageType, content, sender, roomID, receiver, i). 10 - i)") auto

declare message_loop.simps [simp del]

definition handleMessage :: "SocketIOHandler \<Rightarrow> string \<Rightarrow> jvalue list \<Rightarrow> SocketIOHandler \<times> emission list" where
  "handleMessage h client args =
     (case args of
        [] \<Rightarrow> (h, sendError client ''No message data'')
      | JObject data # _ \<Rightarrow>
          (let messageType = get_string data ''type'';
               content = get_string data ''content'';
               sender = get_string data ''sender'';
               roomID = get_string data ''roomId'';
               receiver = get_string data ''receiver''
           in if content = [] \<or> sender = [] then (h, sendError client ''Invalid message data'')
              else message_loop h client messageType content sender roomID receiver 0)
      | _ # _ \<Rightarrow> (h, sendError client ''Invalid message data''))"

text \<open>
  \<^verbatim>\<open>subscribeToRedis\<close>: the handler subscribes \<^verbatim>\<open>broadcastMessage\<close> to the channel
  \<^verbatim>\<open>messages\<close>.
\<close>

definition subscribeToRedis ::
  "SocketIOHandler \<Rightarrow> (string \<Rightarrow> Message option) \<Rightarrow> string list \<Rightarrow> emission list" where
  "subscribeToRedis h unmarshal payloads =
     snd (SubscribeToChannel (redisService h) unmarshal ''messages'' payloads (broadcastMessage h))"

text \<open>
  Which sockets an emission reaches, by the room semantics of Socket.IO: a room emission
  reaches the connected sockets that joined the room.
\<close>

definition receives :: "SocketIOHandler \<Rightarrow> string \<Rightarrow> emission \<Rightarrow> bool" where
  "receives h sid e =
     (case em_target e of
        ToAll \<Rightarrow> rooms h sid \<noteq> None
      | ToRoom room \<Rightarrow> (case rooms h sid of None \<Rightarrow> False | Some rs \<Rightarrow> room \<in> rs)
      | ToClient c \<Rightarrow> c = sid)"

text \<open>
  \<^verbatim>\<open>NewSocketIOHandler\<close>: both maps start empty, and no socket is connected. (The
  subscription it starts in a goroutine is \<open>subscribeToRedis\<close>.)
\<close>

definition NewSocketIOHandler :: "redis \<Rightarrow> (nat \<Rightarrow> time) \<Rightarrow> SocketIOHandler" where
  "NewSocketIOHandler redisService0 clk =
     \<lparr>sessions = Map.empty, userSessions = Map.empty, redisService = redisService0,
      rooms = Map.empty, clock = clk, ticks = 0\<rparr>"

text \<open>A Redis server that holds no key and answers every command.\<close>

definition empty_redis :: redis where
  "empty_redis = \<lparr>kv = Map.empty, published = [], faults = []\<rparr>"

section \<open>Events of a run\<close>

text \<open>
  The events that the transport hands to the handlers registered by
  \<^verbatim>\<open>setupEventHandlers\<close>. Socket.IO takes a closing socket out of all its rooms before
  it runs the socket's \<^verbatim>\<open>disconnect\<close> handlers.
\<close>

datatype event =
    Connection string
  | Join string "jvalue list"
  | JoinRoom string "jvalue list"
  | LeaveRoom string "jvalue list"
  | MessageEvent string "jvalue list"
  | Disconnect string

fun step :: "SocketIOHandler \<Rightarrow> event \<Rightarrow> SocketIOHandler \<times> emission list" where
  "step h (Connection sid) = (connection h sid, [])"
| "step h (Join sid args) = join h sid args"
| "step h (JoinRoom sid args) = join_room h sid args"
| "step h (LeaveRoom sid args) = leave_room h sid args"
| "step h (MessageEvent sid args) = handleMessage h sid args"
| "step h (Disconnect sid) = disconnect (h\<lparr>rooms := (rooms h)(sid := None)\<rparr>) sid"

fun run :: "SocketIOHandler \<Rightarrow> event list \<Rightarrow> SocketIOHandler \<times> emission list" where
  "run h [] = (h, [])"
| "run h (e # es) =
     (let (h1, out1) = step h e;
          (h2, out2) = run h1 es
      in (h2, out1 @ out2))"

section \<open>Notions used in the statements\<close>

text \<open>The message that an iteration of the loop builds when its first clock reading is number \<open>n\<close>.\<close>

definition msg_at ::
  "(nat \<Rightarrow> time) \<Rightarrow> nat \<Rightarrow> string \<Rightarrow> string \<Rightarrow> string \<Rightarrow> string \<Rightarrow> string \<Rightarrow> Message" where
  "msg_at clk n messageType content sender roomID receiver =
     \<lparr>Message.ID = show_int (UnixNano (clk n)) @ ''_'' @ show_int (Unix (clk (Suc n))),
      Type = messageType, Content = content, Sender = sender,
      Receiver = receiver, Room = roomID, Timestamp = clk (Suc (Suc n)), Message.Metadata = JNull\<rparr>"

text \<open>The handler after an iteration that stored \<open>m\<close>: three clock readings, one key set.\<close>

definition stored :: "SocketIOHandler \<Rightarrow> Message \<Rightarrow> SocketIOHandler" where
  "stored h m =
     h\<lparr>ticks := Suc (Suc (Suc (ticks h))),
       redisService := (redisService h)\<lparr>kv := (kv (redisService h))(''message:'' @ Message.ID m \<mapsto> RMessage m)\<rparr>\<rparr>"

text \<open>
  The message that iteration \<open>j\<close> of the loop of \<open>handleMessage\<close> builds from the data
  of the event, when the handler was \<open>h\<close> at the start of the call and every earlier
  iteration went through; \<open>broadcast_copy\<close> is the copy that the iteration broadcasts.
\<close>

definition built_message :: "SocketIOHandler \<Rightarrow> (string \<times> jvalue) list \<Rightarrow> nat \<Rightarrow> Message" where
  "built_message h data j =
     msg_at (clock h) (ticks h + 3 * j) (get_string data ''type'') (get_string data ''content'')
       (get_string data ''sender'') (get_string data ''roomId'') (get_string data ''receiver'')"

definition broadcast_copy :: "SocketIOHandler \<Rightarrow> (string \<times> jvalue) list \<Rightarrow> nat \<Rightarrow> Message" where
  "broadcast_copy h data j =
     (built_message h data j)\<lparr>Content := get_string data ''content'' @ ''Message '' @ show_int (int j)\<rparr>"

text \<open>The key-value store after \<^verbatim>\<open>StoreMessage\<close> succeeded for a message.\<close>

definition store_key :: "(string \<rightharpoonup> rvalue) \<Rightarrow> Message \<Rightarrow> (string \<rightharpoonup> rvalue)" where
  "store_key kvs m = kvs(''message:'' @ Message.ID m \<mapsto> RMessage m)"

text \<open>The message an emission carries, if any, and its content.\<close>

definition em_message :: "emission \<Rightarrow> Message option" where
  "em_message e =
     (case em_data e of
        PMsg m \<Rightarrow> Some m
      | PObj fs \<Rightarrow> (case map_of fs ''message'' of Some (VMsg m) \<Rightarrow> Some m | _ \<Rightarrow> None))"

definition em_content :: "emission \<Rightarrow> string" where
  "em_content e = (case em_message e of Some m \<Rightarrow> Content m | None \<Rightarrow> [])"

text \<open>The targets of the emissions of one event name, in order.\<close>

definition targets_of :: "string \<Rightarrow> emission list \<Rightarrow> target list" where
  "targets_of ev out = map em_target (filter (\<lambda>e. em_event e = ev) out)"

text \<open>What one socket receives of a list of emissions.\<close>

definition deliveries :: "SocketIOHandler \<Rightarrow> string \<Rightarrow> emission list \<Rightarrow> emission list" where
  "deliveries h sid out = filter (receives h sid) out"

text \<open>The number of devices of an identity, and the presence event sent to everyone.\<close>

definition device_count :: "SocketIOHandler \<Rightarrow> string \<Rightarrow> nat" where
  "device_count h userName = length (sessions_of h userName)"

definition status_event :: "string \<Rightarrow> string \<Rightarrow> emission" where
  "status_event userName status =
     Emit ToAll ''user_status'' (PObj [(''userName'', VStr userName), (''status'', VStr status)])"

text \<open>The identity that the arguments of a \<^verbatim>\<open>join\<close> event name (empty when they name none).\<close>

definition join_name :: "jvalue list \<Rightarrow> string" where
  "join_name args = (case args of JObject data # _ \<Rightarrow> get_string data ''userName'' | _ \<Rightarrow> [])"

text \<open>
  The invariant of the registry: no identity is kept with an empty device list, no
  device list holds a session twice, every joined session is in the device list of its
  identity, and every session in a device list has joined for that identity.
\<close>

definition registry_inv :: "SocketIOHandler \<Rightarrow> bool" where
  "registry_inv h =
     ((\<forall>u l. userSessions h u = Some l \<longrightarrow> l \<noteq> [] \<and> distinct l) \<and>
      (\<forall>s usr. sessions h s = Some usr \<longrightarrow> s \<in> set (sessions_of h (User.ID usr))) \<and>
      (\<forall>u l s. userSessions h u = Some l \<longrightarrow> s \<in> set l \<longrightarrow>
         map_option User.ID (sessions h s) = Some u))"

text \<open>
  What every state that the handler reaches satisfies, whatever the clients send: a
  joined session is in the device list of its identity.
\<close>

definition listed_inv :: "SocketIOHandler \<Rightarrow> bool" where
  "listed_inv h = (\<forall>s usr. sessions h s = Some usr \<longrightarrow> s \<in> set (sessions_of h (User.ID usr)))"

text \<open>The rooms that a socket is in (none when it is not connected).\<close>

definition joined_rooms :: "SocketIOHandler \<Rightarrow> string \<Rightarrow> string set" where
  "joined_rooms h sid = (case rooms h sid of None \<Rightarrow> {} | Some rs \<Rightarrow> rs)"

text \<open>The state that a new handler reaches by a run.\<close>

definition reached :: "redis \<Rightarrow> (nat \<Rightarrow> time) \<Rightarrow> event list \<Rightarrow> SocketIOHandler" where
  "reached r clk evs = fst (run (NewSocketIOHandler r clk) evs)"

text \<open>
  The device list as the specification words it: the sessions that joined for the
  identity and have not left, in join order.
\<close>

fun track :: "string \<Rightarrow> string list \<Rightarrow> event \<Rightarrow> string list" where
  "track u live (Join sid args) =
     (if join_name args = u \<and> u \<noteq> [] \<and> sid \<notin> set live then live @ [sid] else live)"
| "track u live (Disconnect sid) = removeAll sid live"
| "track u live _ = live"

definition joined_not_left :: "string \<Rightarrow> event list \<Rightarrow> string list" where
  "joined_not_left u evs = foldl (track u) [] evs"

text \<open>A run in which no socket sends \<^verbatim>\<open>join\<close> while it is joined.\<close>

fun joins_once :: "SocketIOHandler \<Rightarrow> event list \<Rightarrow> bool" where
  "joins_once h [] = True"
| "joins_once h (e # es) =
     ((case e of Join sid args \<Rightarrow> sessions h sid = None | _ \<Rightarrow> True) \<and> joins_once (fst (step h e)) es)"

section \<open>Concrete scenarios\<close>

text \<open>
  Two users, each with one device, both in the room \<^verbatim>\<open>general\<close>; the arguments of
  the events are what the web client sends.
\<close>

definition join_data :: "string \<Rightarrow> string \<Rightarrow> jvalue list" where
  "join_data userName deviceInfo =
     [JObject [(''userName'', JString userName), (''deviceInfo'', JString deviceInfo), (''avatar'', JString [])]]"

definition room_data :: "string \<Rightarrow> string \<Rightarrow> jvalue list" where
  "room_data roomID userName = [JObject [(''roomId'', JString roomID), (''userName'', JString userName)]]"

definition two_users :: SocketIOHandler where
  "two_users = fst (run (NewSocketIOHandler empty_redis int)
     [Connection ''s1'', Join ''s1'' (join_data ''alice'' ''phone''),
      JoinRoom ''s1'' (room_data ''general'' ''alice''),
      Connection ''s2'', Join ''s2'' (join_data ''bob'' ''laptop''),
      JoinRoom ''s2'' (room_data ''general'' ''bob'')])"

definition room_message :: "jvalue list" where
  "room_message = [JObject [(''type'', JString ''text''), (''content'', JString ''hi''),
     (''sender'', JString ''alice''), (''roomId'', JString ''general'')]]"

text \<open>One user with two devices (scenario A of the specification).\<close>

definition alice_two_devices :: SocketIOHandler where
  "alice_two_devices = fst (run (NewSocketIOHandler empty_redis int)
     [Connection ''d1'', Join ''d1'' (join_data ''alice'' ''phone''),
      Connection ''d2'', Join ''d2'' (join_data ''alice'' ''laptop'')])"

text \<open>
  Alice has one device; eve's socket has sent \<^verbatim>\<open>join_room\<close> with the id of alice's
  socket as the room; a second socket has connected.
\<close>

definition eavesdrop :: SocketIOHandler where
  "eavesdrop = fst (run (NewSocketIOHandler empty_redis int)
     [Connection ''d1'', Join ''d1'' (join_data ''alice'' ''phone''),
      Connection ''e1'', Join ''e1'' (join_data ''eve'' ''laptop''),
      JoinRoom ''e1'' (room_data ''d1'' ''eve''),
      Connection ''d2''])"

text \<open>The same two users when the next Redis command fails.\<close>

definition store_down :: SocketIOHandler where
  "store_down = two_users\<lparr>redisService := (redisService two_users)\<lparr>faults := [True]\<rparr>\<rparr>"

text \<open>The same two users when the second Redis command to come fails.\<close>

definition store_down_later :: SocketIOHandler where
  "store_down_later = two_users\<lparr>redisService := (redisService two_users)\<lparr>faults := [False, True]\<rparr>\<rparr>"

text \<open>A message event that names both a room and a receiver.\<close>

definition both_targets_message :: "jvalue list" where
  "both_targets_message = [JObject [(''type'', JString ''text''), (''content'', JString ''hi''),
     (''sender'', JString ''alice''), (''roomId'', JString ''general''), (''receiver'', JString ''bob'')]]"

definition room_and_receiver :: "emission \<Rightarrow> (string \<times> string) option" where
  "room_and_receiver e = map_option (\<lambda>m. (Room m, Receiver m)) (em_message e)"

text \<open>An envelope on the channel \<^verbatim>\<open>messages\<close> and the message it unmarshals to.\<close>

definition relay_message :: Message where
  "relay_message = \<lparr>Message.ID = ''1700000000000000000_1700000000'', Type = ''text'', Content = ''hi'',
     Sender = ''alice'', Receiver = [], Room = ''general'', Timestamp = 1700000000000000000,
     Message.Metadata = JNull\<rparr>"

definition decode :: "string \<Rightarrow> Message option" where
  "decode p = (if p = ''envelope'' then Some relay_message else None)"

text \<open>A socket that sends \<^verbatim>\<open>join\<close> twice and then closes.\<close>

definition rejoin_run :: "event list" where
  "rejoin_run = [Connection ''s1'', Join ''s1'' (join_data ''alice'' ''phone''),
     Join ''s1'' (join_data ''alice'' ''phone''), Disconnect ''s1'']"

section \<open>Loops as list functions\<close>

lemma devices_loop_eq:
  "devices_loop sids event data ex =
     map (\<lambda>s. Emit (ToRoom s) event data) (filter (\<lambda>s. \<not> (ex \<noteq> [] \<and> s = ex)) sids)"
  by (induction sids) auto

lemma remove_session_eq: "remove_session sids s = remove1 s sids"
  by (induction sids) auto

lemma broadcastToUserDevices_eq:
  "broadcastToUserDevices h u event data ex =
     map (\<lambda>s. Emit (ToRoom s) event data) (filter (\<lambda>s. \<not> (ex \<noteq> [] \<and> s = ex)) (sessions_of h u))"
  by (simp add: broadcastToUserDevices_def sessions_of_def devices_loop_eq split: option.splits)

section \<open>The message loop\<close>

lemma StoreMessage_ok:
  "faults r = [] \<Longrightarrow>
   StoreMessage r m = (None, r\<lparr>kv := (kv r)(''message:'' @ Message.ID m \<mapsto> RMessage m)\<rparr>)"
  by (simp add: StoreMessage_def redis_Set_def command_def Let_def)

lemma StoreMessage_fail:
  "faults r = True # fs \<Longrightarrow>
   StoreMessage r m = (Some (Error ''failed to store message''), r\<lparr>faults := fs\<rparr>)"
  by (simp add: StoreMessage_def redis_Set_def command_def Let_def)

lemma StoreMessage_published: "published (snd (StoreMessage r m)) = published r"
  by (auto simp: StoreMessage_def redis_Set_def command_def Let_def split: list.splits bool.splits)

lemma broadcastMessage_frame [simp]:
  "broadcastMessage (h\<lparr>ticks := t\<rparr>) m = broadcastMessage h m"
  "broadcastMessage (h\<lparr>redisService := r\<rparr>) m = broadcastMessage h m"
  "broadcastMessage (h\<lparr>rooms := rs\<rparr>) m = broadcastMessage h m"
  by (simp_all add: broadcastMessage_def broadcastToUserDevices_def)

lemma message_loop_done: "\<not> i < 10 \<Longrightarrow> message_loop h client mt ct s room rc i = (h, [])"
  by (subst message_loop.simps) simp

lemma message_loop_unfold:
  assumes "i < 10"
  shows "message_loop h client mt ct s room rc i =
     (let m = msg_at (clock h) (ticks h) mt ct s room rc;
          h3 = h\<lparr>ticks := Suc (Suc (Suc (ticks h))), redisService := snd (StoreMessage (redisService h) m)\<rparr>
      in case fst (StoreMessage (redisService h) m) of
           Some e \<Rightarrow> (h3, sendError client ''Failed to send message'')
         | None \<Rightarrow>
             (fst (message_loop h3 client mt ct s room rc (Suc i)),
              broadcastMessage h (m\<lparr>Content := ct @ ''Message '' @ show_int (int i)\<rparr>)
              @ snd (message_loop h3 client mt ct s room rc (Suc i))))"
  using assms
  by (subst message_loop.simps)
     (simp add: generateMessageID_def time_Now_def Let_def msg_at_def case_prod_beta
        split: option.splits)

lemma message_loop_fail:
  assumes "faults (redisService h) = True # fs" "i < 10"
  shows "message_loop h client mt ct s room rc i =
           (h\<lparr>ticks := Suc (Suc (Suc (ticks h))), redisService := (redisService h)\<lparr>faults := fs\<rparr>\<rparr>,
            sendError client ''Failed to send message'')"
  by (simp add: message_loop_unfold [OF assms(2)] StoreMessage_fail [OF assms(1)] Let_def)

lemma message_loop_step:
  assumes "faults (redisService h) = []" "i < 10"
  shows "message_loop h client mt ct s room rc i =
       (fst (message_loop (stored h (msg_at (clock h) (ticks h) mt ct s room rc)) client mt ct s room rc (Suc i)),
        broadcastMessage h ((msg_at (clock h) (ticks h) mt ct s room rc)\<lparr>Content := ct @ ''Message '' @ show_int (int i)\<rparr>)
        @ snd (message_loop (stored h (msg_at (clock h) (ticks h) mt ct s room rc)) client mt ct s room rc (Suc i)))"
  by (simp add: message_loop_unfold [OF assms(2)] StoreMessage_ok [OF assms(1)] Let_def stored_def)

lemma message_loop_ok:
  "faults (redisService h) = [] \<Longrightarrow>
   snd (message_loop h client mt ct s room rc i) =
     concat (map (\<lambda>k. broadcastMessage h
                    ((msg_at (clock h) (ticks h + 3 * (k - i)) mt ct s room rc)
                       \<lparr>Content := ct @ ''Message '' @ show_int (int k)\<rparr>))
                 [i..<10])"
proof (induction "10 - i" arbitrary: h i)
  case 0
  then show ?case by (simp add: message_loop_done)
next
  case (Suc n)
  then have lt: "i < 10" and n: "n = 10 - Suc i" by auto
  let ?h = "stored h (msg_at (clock h) (ticks h) mt ct s room rc)"
  have f: "faults (redisService ?h) = []" using Suc.prems by (simp add: stored_def)
  have bm: "\<And>m. broadcastMessage ?h m = broadcastMessage h m" by (simp add: stored_def)
  have ck: "clock ?h = clock h" by (simp add: stored_def)
  have eq: "\<And>k. Suc i \<le> k \<Longrightarrow> ticks ?h + 3 * (k - Suc i) = ticks h + 3 * (k - i)"
    by (simp add: stored_def)
  have "snd (message_loop ?h client mt ct s room rc (Suc i)) =
     concat (map (\<lambda>k. broadcastMessage ?h
                    ((msg_at (clock ?h) (ticks ?h + 3 * (k - Suc i)) mt ct s room rc)
                       \<lparr>Content := ct @ ''Message '' @ show_int (int k)\<rparr>))
                 [Suc i..<10])"
    using Suc.hyps(1) [OF n f] .
  also have "\<dots> = concat (map (\<lambda>k. broadcastMessage h
                    ((msg_at (clock h) (ticks h + 3 * (k - i)) mt ct s room rc)
                       \<lparr>Content := ct @ ''Message '' @ show_int (int k)\<rparr>))
                 [Suc i..<10])"
    by (rule arg_cong [where f = concat], rule map_cong) (simp_all add: bm ck eq)
  finally have IH: "snd (message_loop ?h client mt ct s room rc (Suc i)) =
     concat (map (\<lambda>k. broadcastMessage h
                    ((msg_at (clock h) (ticks h + 3 * (k - i)) mt ct s room rc)
                       \<lparr>Content := ct @ ''Message '' @ show_int (int k)\<rparr>))
                 [Suc i..<10])" .
  have up: "[i..<10] = i # [Suc i..<10]" using lt by (simp add: upt_conv_Cons)
  show ?case
    unfolding message_loop_step [OF Suc.prems lt] up
    by (simp add: IH)
qed

text \<open>The loop touches neither the registry nor the rooms, and publishes nothing.\<close>

lemma message_loop_frame:
  "sessions (fst (message_loop h client mt ct s room rc i)) = sessions h \<and>
   userSessions (fst (message_loop h client mt ct s room rc i)) = userSessions h \<and>
   rooms (fst (message_loop h client mt ct s room rc i)) = rooms h \<and>
   published (redisService (fst (message_loop h client mt ct s room rc i))) = published (redisService h)"
proof (induction "10 - i" arbitrary: h i)
  case 0
  then show ?case by (simp add: message_loop_done)
next
  case (Suc n)
  then have lt: "i < 10" and n: "n = 10 - Suc i" by auto
  show ?case
    using Suc.hyps(1) [OF n]
    by (simp add: message_loop_unfold [OF lt] Let_def StoreMessage_published split: option.splits)
qed

lemma handleMessage_valid:
  assumes "get_string data ''content'' \<noteq> []" "get_string data ''sender'' \<noteq> []"
  shows "handleMessage h client (JObject data # rest) =
     message_loop h client (get_string data ''type'') (get_string data ''content'')
       (get_string data ''sender'') (get_string data ''roomId'') (get_string data ''receiver'') 0"
  using assms by (simp add: handleMessage_def Let_def)

lemma upt_10: "[0..<10] = [0, 1, 2, 3, 4, 5, 6, 7, 8, 9]"
  by code_simp

lemma show_digits:
  "show_int 0 = ''0''" "show_int 1 = ''1''" "show_int 2 = ''2''" "show_int 3 = ''3''"
  "show_int 4 = ''4''" "show_int 5 = ''5''" "show_int 6 = ''6''" "show_int 7 = ''7''"
  "show_int 8 = ''8''" "show_int 9 = ''9''"
  by code_simp+

section \<open>The join and disconnect handlers, case by case\<close>

lemma StoreUserSession_cases:
  "StoreUserSession r u sid =
     (case faults r of
        [] \<Rightarrow> (None, r\<lparr>kv := (kv r)(''user_session:'' @ u \<mapsto> RString sid)\<rparr>)
      | f # fs \<Rightarrow>
          if f then (Some (Error ''failed to store user session''), r\<lparr>faults := fs\<rparr>)
          else (None, r\<lparr>faults := fs, kv := (kv r)(''user_session:'' @ u \<mapsto> RString sid)\<rparr>))"
  by (simp add: StoreUserSession_def redis_Set_def command_def Let_def split: list.splits)

lemma join_invalid:
  "join_name args = [] \<Longrightarrow> fst (join h sid args) = h \<and> (\<exists>t. snd (join h sid args) = sendError sid t)"
  by (auto simp: join_def join_name_def Let_def split: list.splits jvalue.splits)

lemma join_valid_registry:
  assumes "join_name args = u" "u \<noteq> []"
  shows "userSessions (fst (join h sid args)) = (userSessions h)(u \<mapsto> sessions_of h u @ [sid])"
    and "map_option User.ID (sessions (fst (join h sid args)) sid) = Some u"
    and "s \<noteq> sid \<Longrightarrow> sessions (fst (join h sid args)) s = sessions h s"
    and "rooms (fst (join h sid args)) = rooms h"
  using assms
  by (auto simp: join_def join_name_def Let_def time_Now_def sessions_of_def case_prod_beta
      split: list.splits jvalue.splits)

lemma join_valid_redis:
  assumes "join_name args = u" "u \<noteq> []"
  shows "redisService (fst (join h sid args)) = snd (StoreUserSession (redisService h) u sid)"
  using assms
  by (auto simp: join_def join_name_def Let_def time_Now_def sessions_of_def case_prod_beta
      split: list.splits jvalue.splits)

lemma join_valid_out:
  assumes "join_name args = u" "u \<noteq> []"
  shows "\<exists>d1 d2. snd (join h sid args) =
           (if sessions_of h u = [] then [status_event u ''online''] else [])
           @ [Emit (ToClient sid) ''joined'' d1]
           @ map (\<lambda>s. Emit (ToRoom s) ''device_connected'' d2)
               (filter (\<lambda>s. \<not> (sid \<noteq> [] \<and> s = sid)) (sessions_of h u @ [sid]))"
  using assms
  by (auto simp: join_def join_name_def Let_def time_Now_def sessions_of_def case_prod_beta
        broadcastToUserDevices_eq status_event_def broadcastUserStatus_def
      split: list.splits jvalue.splits)

lemma DeleteUserSession_kv:
  "kv (snd (DeleteUserSession r u)) k = (if k = ''user_session:'' @ u \<and> (faults r = [] \<or> \<not> hd (faults r)) then None else kv r k)"
  by (auto simp: DeleteUserSession_def redis_Del_def command_def Let_def split: list.splits bool.splits)

lemma disconnect_unjoined: "sessions h sid = None \<Longrightarrow> disconnect h sid = (h, [])"
  by (simp add: disconnect_def)

lemma disconnect_last:
  assumes "sessions h sid = Some usr" "userSessions h (User.ID usr) = Some l" "remove1 sid l = []"
  shows "disconnect h sid =
           (h\<lparr>userSessions := (userSessions h)(User.ID usr := None),
              redisService := snd (DeleteUserSession (redisService h) (User.ID usr)),
              sessions := (sessions h)(sid := None)\<rparr>,
            [status_event (User.ID usr) ''offline''])"
  using assms
  by (simp add: disconnect_def Let_def remove_session_eq sessions_of_def case_prod_beta
       status_event_def broadcastUserStatus_def)

lemma disconnect_other:
  assumes "sessions h sid = Some usr" "userSessions h (User.ID usr) = Some l" "remove1 sid l \<noteq> []"
  shows "disconnect h sid =
           (h\<lparr>userSessions := (userSessions h)(User.ID usr \<mapsto> remove1 sid l),
              sessions := (sessions h)(sid := None)\<rparr>,
            map (\<lambda>s. Emit (ToRoom s) ''device_disconnected''
                   (PObj [(''sessionId'', VStr sid), (''deviceCount'', VInt (int (length (remove1 sid l))))]))
              (remove1 sid l))"
  using assms
  by (simp add: disconnect_def Let_def remove_session_eq sessions_of_def case_prod_beta
       broadcastToUserDevices_eq)

lemma disconnect_stale:
  assumes "sessions h sid = Some usr" "userSessions h (User.ID usr) = None"
  shows "disconnect h sid = (h\<lparr>sessions := (sessions h)(sid := None)\<rparr>, [])"
  using assms by (simp add: disconnect_def Let_def)

section \<open>The invariant of the registry\<close>

lemma registry_inv_New: "registry_inv (NewSocketIOHandler r clk)"
  by (simp add: registry_inv_def NewSocketIOHandler_def)

lemma registry_inv_cong:
  "sessions h' = sessions h \<Longrightarrow> userSessions h' = userSessions h \<Longrightarrow> registry_inv h' = registry_inv h"
  by (simp add: registry_inv_def sessions_of_def)

lemma in_sessions_ofD:
  "s \<in> set (sessions_of h u) \<Longrightarrow> \<exists>l. userSessions h u = Some l \<and> s \<in> set l"
  by (cases "userSessions h u") (simp_all add: sessions_of_def)

lemma registry_invD:
  assumes "registry_inv h" "sessions h sid = Some usr"
  shows "\<exists>l. userSessions h (User.ID usr) = Some l \<and> sid \<in> set l \<and> distinct l"
proof -
  from assms have "sid \<in> set (sessions_of h (User.ID usr))"
    by (simp add: registry_inv_def)
  then obtain l where l: "userSessions h (User.ID usr) = Some l" "sid \<in> set l"
    using in_sessions_ofD by blast
  with assms(1) show ?thesis by (auto simp: registry_inv_def)
qed

lemma remove1_empty_iff: "x \<in> set l \<Longrightarrow> remove1 x l = [] \<longleftrightarrow> l = [x]"
  by (cases l) (auto split: if_splits)

lemma registry_inv_join:
  assumes inv: "registry_inv h" and fresh: "sessions h sid = None"
  shows "registry_inv (fst (join h sid args))"
proof (cases "join_name args = []")
  case True
  then show ?thesis using inv join_invalid [OF True, of h sid] by simp
next
  case False
  define u where "u = join_name args"
  have u: "join_name args = u" "u \<noteq> []" using False by (simp_all add: u_def)
  note us = join_valid_registry(1) [OF u, of h sid]
  note ss = join_valid_registry(2) [OF u, of h sid]
  note so = join_valid_registry(3) [OF u, of _ sid h]
  have notin: "sid \<notin> set (sessions_of h u)"
  proof
    assume "sid \<in> set (sessions_of h u)"
    then obtain l where "userSessions h u = Some l" "sid \<in> set l"
      using in_sessions_ofD by blast
    with inv have "map_option User.ID (sessions h sid) = Some u" by (auto simp: registry_inv_def)
    with fresh show False by simp
  qed
  have d: "distinct (sessions_of h u)"
    using inv by (auto simp: registry_inv_def sessions_of_def split: option.splits)
  have c1: "\<forall>v l. userSessions (fst (join h sid args)) v = Some l \<longrightarrow> l \<noteq> [] \<and> distinct l"
    using inv notin d by (auto simp: us registry_inv_def split: if_splits)
  have c2: "\<forall>s usr. sessions (fst (join h sid args)) s = Some usr \<longrightarrow>
              s \<in> set (sessions_of (fst (join h sid args)) (User.ID usr))"
  proof (intro allI impI)
    fix s usr assume a: "sessions (fst (join h sid args)) s = Some usr"
    show "s \<in> set (sessions_of (fst (join h sid args)) (User.ID usr))"
    proof (cases "s = sid")
      case True
      with a ss have "User.ID usr = u" by auto
      then show ?thesis using True by (simp add: sessions_of_def us)
    next
      case False
      with a so have "sessions h s = Some usr" by simp
      with inv have "s \<in> set (sessions_of h (User.ID usr))" by (simp add: registry_inv_def)
      then show ?thesis by (auto simp: sessions_of_def us split: option.splits)
    qed
  qed
  have c3: "\<forall>v l s. userSessions (fst (join h sid args)) v = Some l \<longrightarrow> s \<in> set l \<longrightarrow>
              map_option User.ID (sessions (fst (join h sid args)) s) = Some v"
  proof (intro allI impI)
    fix v l s assume a: "userSessions (fst (join h sid args)) v = Some l" "s \<in> set l"
    show "map_option User.ID (sessions (fst (join h sid args)) s) = Some v"
    proof (cases "s = sid")
      case True
      have "v = u"
      proof (rule ccontr)
        assume "v \<noteq> u"
        with a have "userSessions h v = Some l" by (simp add: us)
        with a(2) inv have "map_option User.ID (sessions h s) = Some v" by (auto simp: registry_inv_def)
        with fresh True show False by simp
      qed
      then show ?thesis using ss True by simp
    next
      case False
      have "\<exists>l0. userSessions h v = Some l0 \<and> s \<in> set l0"
        using a False by (auto simp: us sessions_of_def split: if_splits option.splits)
      with inv have "map_option User.ID (sessions h s) = Some v"
        by (auto simp: registry_inv_def)
      then show ?thesis using so [OF False] by simp
    qed
  qed
  show ?thesis
    unfolding registry_inv_def using c1 c2 c3 by blast
qed

lemma registry_inv_disconnect:
  assumes inv: "registry_inv h"
  shows "registry_inv (fst (disconnect h sid))"
proof (cases "sessions h sid")
  case None
  then show ?thesis using inv by (simp add: disconnect_unjoined)
next
  case (Some usr)
  define u where "u = User.ID usr"
  from registry_invD [OF inv Some] obtain l where
    l: "userSessions h u = Some l" "sid \<in> set l" "distinct l" by (auto simp: u_def)
  have others: "\<And>v l' s. userSessions h v = Some l' \<Longrightarrow> s \<in> set l' \<Longrightarrow>
                  map_option User.ID (sessions h s) = Some v"
    using inv by (auto simp: registry_inv_def)
  have ne: "\<And>v l'. userSessions h v = Some l' \<Longrightarrow> l' \<noteq> [] \<and> distinct l'"
    using inv by (auto simp: registry_inv_def)
  have mem: "\<And>s usr'. sessions h s = Some usr' \<Longrightarrow> s \<in> set (sessions_of h (User.ID usr'))"
    using inv by (auto simp: registry_inv_def)
  have sid_only: "\<And>v l'. userSessions h v = Some l' \<Longrightarrow> sid \<in> set l' \<Longrightarrow> v = u"
    using others Some by (fastforce simp: u_def)
  show ?thesis
  proof (cases "remove1 sid l = []")
    case True
    then have l1: "l = [sid]" using l(2) by (simp add: remove1_empty_iff)
    have eq: "fst (disconnect h sid) =
        h\<lparr>userSessions := (userSessions h)(u := None),
          redisService := snd (DeleteUserSession (redisService h) u),
          sessions := (sessions h)(sid := None)\<rparr>"
      using disconnect_last [OF Some l(1) [unfolded u_def] True] by (simp add: u_def)
    have c1: "\<forall>v l'. userSessions (fst (disconnect h sid)) v = Some l' \<longrightarrow> l' \<noteq> [] \<and> distinct l'"
      using ne by (auto simp: eq split: if_splits)
    have c2: "\<forall>s usr'. sessions (fst (disconnect h sid)) s = Some usr' \<longrightarrow>
                s \<in> set (sessions_of (fst (disconnect h sid)) (User.ID usr'))"
    proof (intro allI impI)
      fix s usr' assume "sessions (fst (disconnect h sid)) s = Some usr'"
      then have s: "s \<noteq> sid" "sessions h s = Some usr'" by (auto simp: eq split: if_splits)
      have "User.ID usr' \<noteq> u"
      proof
        assume "User.ID usr' = u"
        with mem [OF s(2)] l(1) l1 have "s = sid" by (simp add: sessions_of_def)
        with s(1) show False by simp
      qed
      then show "s \<in> set (sessions_of (fst (disconnect h sid)) (User.ID usr'))"
        using mem [OF s(2)] by (simp add: eq sessions_of_def)
    qed
    have c3: "\<forall>v l' s. userSessions (fst (disconnect h sid)) v = Some l' \<longrightarrow> s \<in> set l' \<longrightarrow>
                map_option User.ID (sessions (fst (disconnect h sid)) s) = Some v"
    proof (intro allI impI)
      fix v l' s assume a: "userSessions (fst (disconnect h sid)) v = Some l'" "s \<in> set l'"
      then have v: "v \<noteq> u" "userSessions h v = Some l'" by (auto simp: eq split: if_splits)
      have "s \<noteq> sid" using sid_only [OF v(2)] a(2) v(1) by auto
      then show "map_option User.ID (sessions (fst (disconnect h sid)) s) = Some v"
        using others [OF v(2) a(2)] by (simp add: eq)
    qed
    show ?thesis unfolding registry_inv_def using c1 c2 c3 by blast
  next
    case False
    have eq: "fst (disconnect h sid) =
        h\<lparr>userSessions := (userSessions h)(u \<mapsto> remove1 sid l),
          sessions := (sessions h)(sid := None)\<rparr>"
      using disconnect_other [OF Some l(1) [unfolded u_def] False] by (simp add: u_def)
    have c1: "\<forall>v l'. userSessions (fst (disconnect h sid)) v = Some l' \<longrightarrow> l' \<noteq> [] \<and> distinct l'"
      using ne False l(3) by (auto simp: eq split: if_splits)
    have c2: "\<forall>s usr'. sessions (fst (disconnect h sid)) s = Some usr' \<longrightarrow>
                s \<in> set (sessions_of (fst (disconnect h sid)) (User.ID usr'))"
    proof (intro allI impI)
      fix s usr' assume "sessions (fst (disconnect h sid)) s = Some usr'"
      then have s: "s \<noteq> sid" "sessions h s = Some usr'" by (auto simp: eq split: if_splits)
      from mem [OF s(2)] s(1) l(1)
      show "s \<in> set (sessions_of (fst (disconnect h sid)) (User.ID usr'))"
        by (auto simp: eq sessions_of_def)
    qed
    have c3: "\<forall>v l' s. userSessions (fst (disconnect h sid)) v = Some l' \<longrightarrow> s \<in> set l' \<longrightarrow>
                map_option User.ID (sessions (fst (disconnect h sid)) s) = Some v"
    proof (intro allI impI)
      fix v l' s assume a: "userSessions (fst (disconnect h sid)) v = Some l'" "s \<in> set l'"
      show "map_option User.ID (sessions (fst (disconnect h sid)) s) = Some v"
      proof (cases "v = u")
        case True
        with a have "s \<in> set (remove1 sid l)" by (simp add: eq)
        then have "s \<in> set l" "s \<noteq> sid" using l(3) by auto
        then show ?thesis using others [OF l(1)] True by (simp add: eq)
      next
        case False
        with a have v: "userSessions h v = Some l'" by (simp add: eq)
        have "s \<noteq> sid" using sid_only [OF v] a(2) False by auto
        then show ?thesis using others [OF v a(2)] by (simp add: eq)
      qed
    qed
    show ?thesis unfolding registry_inv_def using c1 c2 c3 by blast
  qed
qed

section \<open>Presence events\<close>

lemma status_event_eq [simp]: "status_event u st = status_event v st' \<longleftrightarrow> u = v \<and> st = st'"
  by (auto simp: status_event_def)

lemma device_count_join:
  assumes "join_name args = v" "v \<noteq> []"
  shows "device_count (fst (join h sid args)) u = (if u = v then Suc (device_count h v) else device_count h u)"
  by (simp add: device_count_def sessions_of_def join_valid_registry(1) [OF assms])

lemma online_iff:
  "(status_event u ''online'' \<in> set (snd (join h sid args))) =
     (device_count h u = 0 \<and> device_count (fst (join h sid args)) u = 1)"
proof (cases "join_name args = []")
  case True
  from join_invalid [OF True, of h sid] show ?thesis
    by (auto simp: sendError_def status_event_def)
next
  case False
  define v where "v = join_name args"
  have v: "join_name args = v" "v \<noteq> []" using False by (simp_all add: v_def)
  from join_valid_out [OF v, of h sid] obtain d1 d2 where
    out: "snd (join h sid args) =
           (if sessions_of h v = [] then [status_event v ''online''] else [])
           @ [Emit (ToClient sid) ''joined'' d1]
           @ map (\<lambda>s. Emit (ToRoom s) ''device_connected'' d2)
               (filter (\<lambda>s. \<not> (sid \<noteq> [] \<and> s = sid)) (sessions_of h v @ [sid]))" by blast
  have A: "(status_event u ''online'' \<in> set (snd (join h sid args))) = (sessions_of h v = [] \<and> u = v)"
    unfolding out by (auto simp: status_event_def)
  have B: "(device_count h u = 0 \<and> device_count (fst (join h sid args)) u = 1) =
             (sessions_of h v = [] \<and> u = v)"
    unfolding device_count_join [OF v] by (auto simp: device_count_def)
  show ?thesis unfolding A B ..
qed

section \<open>The invariant along a run\<close>

lemma join_room_registry:
  "sessions (fst (join_room h sid args)) = sessions h"
  "userSessions (fst (join_room h sid args)) = userSessions h"
  by (simp_all add: join_room_def Let_def case_prod_beta split: list.splits jvalue.splits)

lemma leave_room_registry:
  "sessions (fst (leave_room h sid args)) = sessions h"
  "userSessions (fst (leave_room h sid args)) = userSessions h"
  by (simp_all add: leave_room_def Let_def case_prod_beta split: list.splits jvalue.splits)

lemma handleMessage_registry:
  "sessions (fst (handleMessage h sid args)) = sessions h"
  "userSessions (fst (handleMessage h sid args)) = userSessions h"
  "rooms (fst (handleMessage h sid args)) = rooms h"
  "published (redisService (fst (handleMessage h sid args))) = published (redisService h)"
  by (simp_all add: handleMessage_def Let_def message_loop_frame split: list.splits jvalue.splits)

lemma registry_inv_step:
  assumes "registry_inv h" "\<And>sid args. e = Join sid args \<Longrightarrow> sessions h sid = None"
  shows "registry_inv (fst (step h e))"
proof (cases e)
  case (Connection sid)
  then show ?thesis
    using assms(1) registry_inv_cong [of "connection h sid" h] by (simp add: connection_def)
next
  case (Join sid args)
  then show ?thesis using assms by (simp add: registry_inv_join)
next
  case (JoinRoom sid args)
  then show ?thesis
    using assms(1) registry_inv_cong [OF join_room_registry, of h sid args] by simp
next
  case (LeaveRoom sid args)
  then show ?thesis
    using assms(1) registry_inv_cong [OF leave_room_registry, of h sid args] by simp
next
  case (MessageEvent sid args)
  then show ?thesis
    using assms(1) registry_inv_cong [OF handleMessage_registry(1,2), of h sid args] by simp
next
  case (Disconnect sid)
  have "registry_inv (h\<lparr>rooms := (rooms h)(sid := None)\<rparr>)"
    using assms(1) registry_inv_cong [of "h\<lparr>rooms := (rooms h)(sid := None)\<rparr>" h] by simp
  then show ?thesis using Disconnect by (simp add: registry_inv_disconnect)
qed

section \<open>The scenario with one user and two devices\<close>

lemma alice_two_devices_unfold:
  "alice_two_devices =
     fst (join (connection (fst (join (connection (NewSocketIOHandler empty_redis int) ''d1'') ''d1''
            (join_data ''alice'' ''phone''))) ''d2'') ''d2'' (join_data ''alice'' ''laptop''))"
  by (simp add: alice_two_devices_def case_prod_beta Let_def)

lemma join_name_join_data [simp]: "join_name (join_data u d) = u"
  by (simp add: join_name_def join_data_def get_string_def)

lemma connection_registry [simp]:
  "sessions (connection h sid) = sessions h" "userSessions (connection h sid) = userSessions h"
  "sessions_of (connection h sid) u = sessions_of h u"
  by (simp_all add: connection_def sessions_of_def)

lemma alice_two_devices_inv: "registry_inv alice_two_devices"
proof -
  let ?h0 = "NewSocketIOHandler empty_redis int"
  let ?h1 = "fst (join (connection ?h0 ''d1'') ''d1'' (join_data ''alice'' ''phone''))"
  have i0: "registry_inv (connection ?h0 ''d1'')"
    using registry_inv_cong [OF connection_registry(1,2), of ?h0 "''d1''"] registry_inv_New by simp
  have i1: "registry_inv ?h1"
    by (rule registry_inv_join [OF i0]) (simp add: NewSocketIOHandler_def)
  have i2: "registry_inv (connection ?h1 ''d2'')"
    using registry_inv_cong [OF connection_registry(1,2), of ?h1 "''d2''"] i1 by simp
  have fresh: "sessions (connection ?h1 ''d2'') ''d2'' = None"
    by (simp add: join_valid_registry(3) [of _ "''alice''"] NewSocketIOHandler_def)
  show ?thesis
    unfolding alice_two_devices_unfold by (rule registry_inv_join [OF i2 fresh])
qed

lemma alice_two_devices_sessions:
  "sessions_of alice_two_devices ''alice'' = [''d1'', ''d2'']"
  "map_option User.ID (sessions alice_two_devices ''d2'') = Some ''alice''"
  unfolding alice_two_devices_unfold
  by (simp_all add: sessions_of_def join_valid_registry(1,2) [of _ "''alice''"] NewSocketIOHandler_def)

lemma StoreUserSession_ok:
  "faults r = [] \<Longrightarrow>
   snd (StoreUserSession r u sid) = r\<lparr>kv := (kv r)(''user_session:'' @ u \<mapsto> RString sid)\<rparr>"
  by (simp add: StoreUserSession_cases)

section \<open>The scenario with two users\<close>

lemma two_users_unfold:
  "two_users =
     fst (join_room (fst (join (connection
       (fst (join_room (fst (join (connection (NewSocketIOHandler empty_redis int) ''s1'') ''s1''
          (join_data ''alice'' ''phone''))) ''s1'' (room_data ''general'' ''alice'')))
       ''s2'') ''s2'' (join_data ''bob'' ''laptop''))) ''s2'' (room_data ''general'' ''bob''))"
  by (simp add: two_users_def case_prod_beta Let_def)

lemmas scenario_defs = NewSocketIOHandler_def empty_redis_def join_data_def room_data_def
  connection_def join_def join_room_def get_string_def Let_def time_Now_def sessions_of_def
  StoreUserSession_def AddUserToRoom_def redis_Set_def redis_SAdd_def command_def members_of_def

lemma two_users_rooms:
  "rooms two_users ''s1'' = Some {''s1'', ''general''}"
  "rooms two_users ''s2'' = Some {''s2'', ''general''}"
  unfolding two_users_unfold by (auto simp: scenario_defs)

lemma two_users_faults: "faults (redisService two_users) = []"
  unfolding two_users_unfold by (simp add: scenario_defs)

lemma two_users_published: "published (redisService two_users) = []"
  unfolding two_users_unfold by (simp add: scenario_defs)

lemma two_users_devices:
  "userSessions two_users ''alice'' = Some [''s1'']" "userSessions two_users ''bob'' = Some [''s2'']"
  unfolding two_users_unfold by (simp_all add: scenario_defs)

lemma room_message_loop:
  "handleMessage h client room_message =
     message_loop h client ''text'' ''hi'' ''alice'' ''general'' [] 0"
  by (simp add: room_message_def handleMessage_def get_string_def Let_def)

lemma room_message_out:
  assumes "faults (redisService h) = []"
  shows "map (\<lambda>e. (em_target e, em_event e, em_content e)) (snd (handleMessage h client room_message)) =
     map (\<lambda>k. (ToRoom ''general'', ''message'', ''hiMessage '' @ show_int (int k))) [0..<10]"
  unfolding room_message_loop message_loop_ok [OF assms]
  by (simp add: broadcastMessage_def msg_at_def em_content_def em_message_def comp_def)

lemma receives_room:
  "receives h sid (Emit (ToRoom r) ev d) = (case rooms h sid of None \<Rightarrow> False | Some rs \<Rightarrow> r \<in> rs)"
  by (simp add: receives_def)

lemma store_down_faults: "faults (redisService store_down) = [True]"
  by (simp add: store_down_def)

lemma store_down_rooms: "rooms store_down = rooms two_users"
  by (simp add: store_down_def)

lemma both_targets_loop:
  "handleMessage h client both_targets_message =
     message_loop h client ''text'' ''hi'' ''alice'' ''general'' ''bob'' 0"
  by (simp add: both_targets_message_def handleMessage_def get_string_def Let_def)

section \<open>The device list of a run\<close>

lemma not_joined_not_listed:
  assumes "registry_inv h" "sessions h sid = None"
  shows "sid \<notin> set (sessions_of h u)"
proof
  assume "sid \<in> set (sessions_of h u)"
  then obtain l where "userSessions h u = Some l" "sid \<in> set l"
    using in_sessions_ofD by blast
  with assms(1) have "map_option User.ID (sessions h sid) = Some u" by (auto simp: registry_inv_def)
  with assms(2) show False by simp
qed

lemma listed_elsewhere:
  assumes "registry_inv h" "sessions h sid = Some usr" "u \<noteq> User.ID usr"
  shows "sid \<notin> set (sessions_of h u)"
proof
  assume "sid \<in> set (sessions_of h u)"
  then obtain l where "userSessions h u = Some l" "sid \<in> set l"
    using in_sessions_ofD by blast
  with assms(1) have "map_option User.ID (sessions h sid) = Some u" by (auto simp: registry_inv_def)
  with assms(2,3) show False by simp
qed

lemma sessions_of_join:
  assumes "registry_inv h" "sessions h sid = None"
  shows "sessions_of (fst (join h sid args)) u = track u (sessions_of h u) (Join sid args)"
proof (cases "join_name args = []")
  case True
  then show ?thesis using join_invalid [OF True, of h sid] by auto
next
  case False
  define v where "v = join_name args"
  have v: "join_name args = v" "v \<noteq> []" using False by (simp_all add: v_def)
  show ?thesis
    using not_joined_not_listed [OF assms, of u] v
    by (auto simp: sessions_of_def join_valid_registry(1) [OF v])
qed

lemma sessions_of_disconnect:
  assumes inv: "registry_inv h"
  shows "sessions_of (fst (disconnect h sid)) u = removeAll sid (sessions_of h u)"
proof (cases "sessions h sid")
  case None
  then show ?thesis
    using not_joined_not_listed [OF inv None, of u] by (simp add: disconnect_unjoined)
next
  case (Some usr)
  define v where "v = User.ID usr"
  from registry_invD [OF inv Some] obtain l where
    l: "userSessions h v = Some l" "sid \<in> set l" "distinct l" by (auto simp: v_def)
  have r: "remove1 sid l = removeAll sid l" using l(3) by (simp add: distinct_remove1_removeAll)
  show ?thesis
  proof (cases "u = v")
    case True
    show ?thesis
    proof (cases "remove1 sid l = []")
      case e: True
      show ?thesis
        using l(1) e True
        by (simp add: disconnect_last [OF Some l(1) [unfolded v_def] e] v_def [symmetric]
              sessions_of_def r)
    next
      case e: False
      show ?thesis
        using l(1) True
        by (simp add: disconnect_other [OF Some l(1) [unfolded v_def] e] v_def [symmetric]
              sessions_of_def r)
    qed
  next
    case False
    then have "u \<noteq> User.ID usr" by (simp add: v_def)
    from listed_elsewhere [OF inv Some this] have n: "removeAll sid (sessions_of h u) = sessions_of h u"
      by simp
    show ?thesis
    proof (cases "remove1 sid l = []")
      case e: True
      show ?thesis
        unfolding n using False
        by (simp add: disconnect_last [OF Some l(1) [unfolded v_def] e] v_def [symmetric] sessions_of_def)
    next
      case e: False
      show ?thesis
        unfolding n using False
        by (simp add: disconnect_other [OF Some l(1) [unfolded v_def] e] v_def [symmetric] sessions_of_def)
    qed
  qed
qed

lemma sessions_of_step:
  assumes "registry_inv h" "\<And>sid args. e = Join sid args \<Longrightarrow> sessions h sid = None"
  shows "sessions_of (fst (step h e)) u = track u (sessions_of h u) e"
proof (cases e)
  case (Connection sid)
  then show ?thesis by simp
next
  case (Join sid args)
  then show ?thesis using sessions_of_join [OF assms(1) assms(2) [OF Join]] by simp
next
  case (JoinRoom sid args)
  then show ?thesis by (simp add: sessions_of_def join_room_registry)
next
  case (LeaveRoom sid args)
  then show ?thesis by (simp add: sessions_of_def leave_room_registry)
next
  case (MessageEvent sid args)
  then show ?thesis by (simp add: sessions_of_def handleMessage_registry)
next
  case (Disconnect sid)
  have i: "registry_inv (h\<lparr>rooms := (rooms h)(sid := None)\<rparr>)"
    using assms(1) registry_inv_cong [of "h\<lparr>rooms := (rooms h)(sid := None)\<rparr>" h] by simp
  show ?thesis
    using sessions_of_disconnect [OF i, of sid u] Disconnect by (simp add: sessions_of_def)
qed

lemma run_fst: "fst (run h (e # es)) = fst (run (fst (step h e)) es)"
  by (simp add: case_prod_beta Let_def)

text \<open>The invariant holds in every state that a run without a second join reaches.\<close>

lemma registry_inv_run:
  assumes "registry_inv h" "joins_once h evs"
  shows "registry_inv (fst (run h evs))"
  using assms
proof (induction evs arbitrary: h)
  case Nil
  then show ?case by simp
next
  case (Cons e es)
  have fresh: "\<And>sid args. e = Join sid args \<Longrightarrow> sessions h sid = None"
    using Cons.prems(2) by auto
  have i: "registry_inv (fst (step h e))" by (rule registry_inv_step [OF Cons.prems(1) fresh])
  have j: "joins_once (fst (step h e)) es" using Cons.prems(2) by simp
  show ?case unfolding run_fst by (rule Cons.IH [OF i j])
qed

text \<open>
  On a run in which no socket joins twice, the device list of every identity is the
  list of the sessions that joined for it and have not left, in join order.
\<close>

lemma devices_of_run:
  assumes "registry_inv h" "joins_once h evs"
  shows "sessions_of (fst (run h evs)) u = foldl (track u) (sessions_of h u) evs"
  using assms
proof (induction evs arbitrary: h)
  case Nil
  then show ?case by simp
next
  case (Cons e es)
  have fresh: "\<And>sid args. e = Join sid args \<Longrightarrow> sessions h sid = None"
    using Cons.prems(2) by auto
  have i: "registry_inv (fst (step h e))" by (rule registry_inv_step [OF Cons.prems(1) fresh])
  have j: "joins_once (fst (step h e)) es" using Cons.prems(2) by simp
  show ?case
    unfolding run_fst Cons.IH [OF i j]
    by (simp add: sessions_of_step [OF Cons.prems(1) fresh])
qed

lemma devices_of_run_from_start:
  assumes "joins_once (NewSocketIOHandler r clk) evs"
  shows "sessions_of (fst (run (NewSocketIOHandler r clk) evs)) u = joined_not_left u evs"
  using devices_of_run [OF registry_inv_New assms, of u]
  by (simp add: joined_not_left_def sessions_of_def NewSocketIOHandler_def)

text \<open>A disconnect of a socket that has not joined, or a second one, changes nothing.\<close>

lemma disconnect_twice:
  "disconnect (fst (disconnect h sid)) sid = (fst (disconnect h sid), [])"
  by (rule disconnect_unjoined)
     (simp add: disconnect_def Let_def case_prod_beta split: option.splits)

section \<open>The relay subscriber\<close>

lemma receive_loop_append:
  "receive_loop um cb (ps @ qs) = receive_loop um cb ps @ receive_loop um cb qs"
  by (induction ps) (auto split: option.splits)

lemma subscribeToRedis_append:
  "subscribeToRedis h um (ps @ qs) = subscribeToRedis h um ps @ subscribeToRedis h um qs"
  by (simp add: subscribeToRedis_def SubscribeToChannel_def receive_loop_append
        split: prod.splits bool.splits)

section \<open>Presence events in every reachable state\<close>

lemma listed_inv_New: "listed_inv (NewSocketIOHandler r clk)"
  by (simp add: listed_inv_def NewSocketIOHandler_def)

lemma listed_inv_cong:
  "sessions h' = sessions h \<Longrightarrow> userSessions h' = userSessions h \<Longrightarrow> listed_inv h' = listed_inv h"
  by (simp add: listed_inv_def sessions_of_def)

lemma listed_inv_join:
  assumes inv: "listed_inv h"
  shows "listed_inv (fst (join h sid args))"
proof (cases "join_name args = []")
  case True
  then show ?thesis using inv join_invalid [OF True, of h sid] by simp
next
  case False
  define u where "u = join_name args"
  have u: "join_name args = u" "u \<noteq> []" using False by (simp_all add: u_def)
  note us = join_valid_registry(1) [OF u, of h sid]
  note ss = join_valid_registry(2) [OF u, of h sid]
  note so = join_valid_registry(3) [OF u, of _ sid h]
  show ?thesis
    unfolding listed_inv_def
  proof (intro allI impI)
    fix s usr assume a: "sessions (fst (join h sid args)) s = Some usr"
    show "s \<in> set (sessions_of (fst (join h sid args)) (User.ID usr))"
    proof (cases "s = sid")
      case True
      with a ss have "User.ID usr = u" by auto
      then show ?thesis using True by (simp add: sessions_of_def us)
    next
      case False
      with a so have "sessions h s = Some usr" by simp
      with inv have "s \<in> set (sessions_of h (User.ID usr))" by (simp add: listed_inv_def)
      then show ?thesis by (auto simp: sessions_of_def us split: option.splits)
    qed
  qed
qed

lemma listed_invD:
  assumes "listed_inv h" "sessions h sid = Some usr"
  shows "\<exists>l. userSessions h (User.ID usr) = Some l \<and> sid \<in> set l"
proof -
  from assms have "sid \<in> set (sessions_of h (User.ID usr))" by (simp add: listed_inv_def)
  then show ?thesis using in_sessions_ofD by blast
qed

lemma listed_inv_disconnect:
  assumes inv: "listed_inv h"
  shows "listed_inv (fst (disconnect h sid))"
proof (cases "sessions h sid")
  case None
  then show ?thesis using inv by (simp add: disconnect_unjoined)
next
  case (Some usr)
  define u where "u = User.ID usr"
  from listed_invD [OF inv Some] obtain l where
    l: "userSessions h u = Some l" "sid \<in> set l" by (auto simp: u_def)
  have mem: "\<And>s usr'. sessions h s = Some usr' \<Longrightarrow> s \<in> set (sessions_of h (User.ID usr'))"
    using inv by (auto simp: listed_inv_def)
  have keep: "\<And>s usr'. s \<noteq> sid \<Longrightarrow> sessions h s = Some usr' \<Longrightarrow> User.ID usr' = u \<Longrightarrow>
                s \<in> set (remove1 sid l)"
    using mem l(1) by (fastforce simp: sessions_of_def)
  show ?thesis
  proof (cases "remove1 sid l = []")
    case True
    have eq: "fst (disconnect h sid) =
        h\<lparr>userSessions := (userSessions h)(u := None),
          redisService := snd (DeleteUserSession (redisService h) u),
          sessions := (sessions h)(sid := None)\<rparr>"
      using disconnect_last [OF Some l(1) [unfolded u_def] True] by (simp add: u_def)
    show ?thesis
      unfolding listed_inv_def
    proof (intro allI impI)
      fix s usr' assume "sessions (fst (disconnect h sid)) s = Some usr'"
      then have s: "s \<noteq> sid" "sessions h s = Some usr'" by (auto simp: eq split: if_splits)
      have "User.ID usr' \<noteq> u" using keep [OF s] True by auto
      then show "s \<in> set (sessions_of (fst (disconnect h sid)) (User.ID usr'))"
        using mem [OF s(2)] by (simp add: eq sessions_of_def)
    qed
  next
    case False
    have eq: "fst (disconnect h sid) =
        h\<lparr>userSessions := (userSessions h)(u \<mapsto> remove1 sid l),
          sessions := (sessions h)(sid := None)\<rparr>"
      using disconnect_other [OF Some l(1) [unfolded u_def] False] by (simp add: u_def)
    show ?thesis
      unfolding listed_inv_def
    proof (intro allI impI)
      fix s usr' assume "sessions (fst (disconnect h sid)) s = Some usr'"
      then have s: "s \<noteq> sid" "sessions h s = Some usr'" by (auto simp: eq split: if_splits)
      show "s \<in> set (sessions_of (fst (disconnect h sid)) (User.ID usr'))"
      proof (cases "User.ID usr' = u")
        case True
        then show ?thesis using keep [OF s True] by (simp add: eq sessions_of_def)
      next
        case False
        then show ?thesis using mem [OF s(2)] by (simp add: eq sessions_of_def)
      qed
    qed
  qed
qed

lemma listed_inv_step: "listed_inv h \<Longrightarrow> listed_inv (fst (step h e))"
proof (cases e)
  case (Connection sid)
  assume "listed_inv h"
  then show ?thesis
    using Connection listed_inv_cong [of "connection h sid" h] by (simp add: connection_def)
next
  case (Join sid args)
  assume "listed_inv h"
  then show ?thesis using Join by (simp add: listed_inv_join)
next
  case (JoinRoom sid args)
  assume "listed_inv h"
  then show ?thesis
    using JoinRoom listed_inv_cong [OF join_room_registry, of h sid args] by simp
next
  case (LeaveRoom sid args)
  assume "listed_inv h"
  then show ?thesis
    using LeaveRoom listed_inv_cong [OF leave_room_registry, of h sid args] by simp
next
  case (MessageEvent sid args)
  assume "listed_inv h"
  then show ?thesis
    using MessageEvent listed_inv_cong [OF handleMessage_registry(1,2), of h sid args] by simp
next
  case (Disconnect sid)
  assume "listed_inv h"
  then have "listed_inv (h\<lparr>rooms := (rooms h)(sid := None)\<rparr>)"
    using listed_inv_cong [of "h\<lparr>rooms := (rooms h)(sid := None)\<rparr>" h] by simp
  then show ?thesis using Disconnect by (simp add: listed_inv_disconnect)
qed

lemma listed_inv_run: "listed_inv h \<Longrightarrow> listed_inv (fst (run h evs))"
proof (induction evs arbitrary: h)
  case Nil
  then show ?case by simp
next
  case (Cons e es)
  show ?case unfolding run_fst by (rule Cons.IH [OF listed_inv_step [OF Cons.prems]])
qed

lemma listed_inv_reached: "listed_inv (fst (run (NewSocketIOHandler r clk) evs))"
  by (rule listed_inv_run [OF listed_inv_New])

lemma offline_iff_listed:
  assumes inv: "listed_inv h"
  shows "(status_event u ''offline'' \<in> set (snd (disconnect h sid))) =
     (device_count h u = 1 \<and> device_count (fst (disconnect h sid)) u = 0)"
proof (cases "sessions h sid")
  case None
  then show ?thesis by (simp add: disconnect_unjoined)
next
  case (Some usr)
  define v where "v = User.ID usr"
  from listed_invD [OF inv Some] obtain l where
    l: "userSessions h v = Some l" "sid \<in> set l" by (auto simp: v_def)
  show ?thesis
  proof (cases "remove1 sid l = []")
    case True
    then have l1: "l = [sid]" using l(2) by (simp add: remove1_empty_iff)
    show ?thesis
      using l(1) l1
      by (auto simp: disconnect_last [OF Some l(1) [unfolded v_def] True] v_def [symmetric]
            device_count_def sessions_of_def)
  next
    case False
    show ?thesis
      using l(1) False
      by (auto simp: disconnect_other [OF Some l(1) [unfolded v_def] False] v_def [symmetric]
            device_count_def sessions_of_def status_event_def)
  qed
qed

section \<open>A store that fails after some have succeeded\<close>

lemma StoreMessage_pass:
  "faults r = False # fs \<Longrightarrow>
   StoreMessage r m = (None, r\<lparr>faults := fs, kv := store_key (kv r) m\<rparr>)"
  by (simp add: StoreMessage_def redis_Set_def command_def Let_def store_key_def)

text \<open>
  The loop when the first \<open>k\<close> stores succeed and the next one fails: \<open>k\<close> broadcasts,
  then the error event, and the handler returns.
\<close>

lemma message_loop_fail_after:
  assumes "faults (redisService h) = replicate k False @ True # fs" "i + k < 10"
  shows "message_loop h client mt ct s room rc i =
     (h\<lparr>ticks := ticks h + 3 * Suc k,
        redisService := (redisService h)
          \<lparr>faults := fs,
           kv := foldl store_key (kv (redisService h))
                   (map (\<lambda>j. msg_at (clock h) (ticks h + 3 * j) mt ct s room rc) [0..<k])\<rparr>\<rparr>,
      concat (map (\<lambda>j. broadcastMessage h
                     ((msg_at (clock h) (ticks h + 3 * j) mt ct s room rc)
                        \<lparr>Content := ct @ ''Message '' @ show_int (int (i + j))\<rparr>))
                  [0..<k])
      @ sendError client ''Failed to send message'')"
  using assms
proof (induction k arbitrary: h i)
  case 0
  then have f: "faults (redisService h) = True # fs" and lt: "i < 10" by simp_all
  show ?case by (simp add: message_loop_fail [OF f lt])
next
  case (Suc k)
  then have f: "faults (redisService h) = False # (replicate k False @ True # fs)"
    and lt: "i < 10" and lt': "Suc i + k < 10" by simp_all
  define F where "F = (\<lambda>j. msg_at (clock h) (ticks h + 3 * j) mt ct s room rc)"
  define G where "G = (\<lambda>j. broadcastMessage h ((F j)\<lparr>Content := ct @ ''Message '' @ show_int (int (i + j))\<rparr>))"
  define h' where "h' = h\<lparr>ticks := Suc (Suc (Suc (ticks h))),
              redisService := (redisService h)\<lparr>faults := replicate k False @ True # fs,
                                                kv := store_key (kv (redisService h)) (F 0)\<rparr>\<rparr>"
  have f': "faults (redisService h') = replicate k False @ True # fs" by (simp add: h'_def)
  have step: "message_loop h client mt ct s room rc i =
      (fst (message_loop h' client mt ct s room rc (Suc i)),
       G 0 @ snd (message_loop h' client mt ct s room rc (Suc i)))"
    by (simp add: message_loop_unfold [OF lt] StoreMessage_pass [OF f] Let_def h'_def F_def G_def)
  have F': "\<And>j. msg_at (clock h') (ticks h' + 3 * j) mt ct s room rc = F (Suc j)"
  proof -
    fix j
    have "ticks h' + 3 * j = ticks h + 3 * Suc j" by (simp add: h'_def)
    moreover have "clock h' = clock h" by (simp add: h'_def)
    ultimately show "msg_at (clock h') (ticks h' + 3 * j) mt ct s room rc = F (Suc j)"
      unfolding F_def by (simp only:)
  qed
  have G': "\<And>j. broadcastMessage h' ((F (Suc j))\<lparr>Content := ct @ ''Message '' @ show_int (int (Suc i + j))\<rparr>) = G (Suc j)"
  proof -
    fix j
    have e: "Suc i + j = i + Suc j" by simp
    show "broadcastMessage h' ((F (Suc j))\<lparr>Content := ct @ ''Message '' @ show_int (int (Suc i + j))\<rparr>) = G (Suc j)"
      unfolding G_def e by (simp add: h'_def)
  qed
  have ih: "message_loop h' client mt ct s room rc (Suc i) =
     (h'\<lparr>ticks := ticks h' + 3 * Suc k,
        redisService := (redisService h')
          \<lparr>faults := fs,
           kv := foldl store_key (kv (redisService h')) (map (\<lambda>j. F (Suc j)) [0..<k])\<rparr>\<rparr>,
      concat (map (\<lambda>j. G (Suc j)) [0..<k]) @ sendError client ''Failed to send message'')"
    using Suc.IH [OF f' lt'] unfolding F' G' .
  have up: "[0..<Suc k] = 0 # map Suc [0..<k]"
    by (simp add: map_Suc_upt upt_conv_Cons del: upt_Suc)
  have t: "ticks h' + 3 * Suc k = ticks h + 3 * Suc (Suc k)" by (simp add: h'_def)
  have st: "h'\<lparr>ticks := ticks h' + 3 * Suc k,
        redisService := (redisService h')
          \<lparr>faults := fs,
           kv := foldl store_key (kv (redisService h')) (map (\<lambda>j. F (Suc j)) [0..<k])\<rparr>\<rparr> =
     h\<lparr>ticks := ticks h + 3 * Suc (Suc k),
        redisService := (redisService h)
          \<lparr>faults := fs, kv := foldl store_key (kv (redisService h)) (map F [0..<Suc k])\<rparr>\<rparr>"
    unfolding t up by (simp add: h'_def comp_def)
  have out: "G 0 @ concat (map (\<lambda>j. G (Suc j)) [0..<k]) @ sendError client ''Failed to send message'' =
     concat (map G [0..<Suc k]) @ sendError client ''Failed to send message''"
    unfolding up by (simp add: comp_def)
  have "message_loop h client mt ct s room rc i =
     (h\<lparr>ticks := ticks h + 3 * Suc (Suc k),
        redisService := (redisService h)
          \<lparr>faults := fs, kv := foldl store_key (kv (redisService h)) (map F [0..<Suc k])\<rparr>\<rparr>,
      concat (map G [0..<Suc k]) @ sendError client ''Failed to send message'')"
    unfolding step ih using st out by simp
  then show ?case unfolding F_def G_def .
qed

lemma store_down_later_faults: "faults (redisService store_down_later) = replicate 1 False @ True # []"
  by (simp add: store_down_later_def)

lemma store_down_later_devices: "userSessions store_down_later = userSessions two_users"
  by (simp add: store_down_later_def)

section \<open>Device events: whom they address and who receives them\<close>

lemma join_device_targets:
  "targets_of ''device_connected'' (snd (join h sid args)) =
     (if join_name args = [] then []
      else map ToRoom (filter (\<lambda>s. \<not> (sid \<noteq> [] \<and> s = sid))
                         (sessions_of (fst (join h sid args)) (join_name args))))"
proof (cases "join_name args = []")
  case True
  from join_invalid [OF True, of h sid] show ?thesis
    using True by (auto simp: sendError_def targets_of_def)
next
  case False
  define v where "v = join_name args"
  have v: "join_name args = v" "v \<noteq> []" using False by (simp_all add: v_def)
  from join_valid_out [OF v, of h sid] obtain d1 d2 where
    out: "snd (join h sid args) =
           (if sessions_of h v = [] then [status_event v ''online''] else [])
           @ [Emit (ToClient sid) ''joined'' d1]
           @ map (\<lambda>s. Emit (ToRoom s) ''device_connected'' d2)
               (filter (\<lambda>s. \<not> (sid \<noteq> [] \<and> s = sid)) (sessions_of h v @ [sid]))" by blast
  have l: "sessions_of (fst (join h sid args)) v = sessions_of h v @ [sid]"
    by (simp add: sessions_of_def join_valid_registry(1) [OF v])
  show ?thesis
    unfolding out using v
    by (simp add: l targets_of_def status_event_def filter_map comp_def)
qed

lemma join_device_deliveries:
  "targets_of ''device_connected'' (deliveries g x (snd (join h sid args))) =
     (if join_name args = [] then []
      else map ToRoom (filter (\<lambda>s. s \<in> joined_rooms g x)
             (filter (\<lambda>s. \<not> (sid \<noteq> [] \<and> s = sid))
                (sessions_of (fst (join h sid args)) (join_name args)))))"
proof (cases "join_name args = []")
  case True
  from join_invalid [OF True, of h sid] show ?thesis
    using True by (auto simp: sendError_def targets_of_def deliveries_def)
next
  case False
  define v where "v = join_name args"
  have v: "join_name args = v" "v \<noteq> []" using False by (simp_all add: v_def)
  from join_valid_out [OF v, of h sid] obtain d1 d2 where
    out: "snd (join h sid args) =
           (if sessions_of h v = [] then [status_event v ''online''] else [])
           @ [Emit (ToClient sid) ''joined'' d1]
           @ map (\<lambda>s. Emit (ToRoom s) ''device_connected'' d2)
               (filter (\<lambda>s. \<not> (sid \<noteq> [] \<and> s = sid)) (sessions_of h v @ [sid]))" by blast
  have l: "sessions_of (fst (join h sid args)) v = sessions_of h v @ [sid]"
    by (simp add: sessions_of_def join_valid_registry(1) [OF v])
  have r: "\<And>s ev d. receives g x (Emit (ToRoom s) ev d) = (s \<in> joined_rooms g x)"
    by (simp add: receives_def joined_rooms_def split: option.splits)
  show ?thesis
    unfolding out using v
    by (simp add: l targets_of_def deliveries_def status_event_def filter_map comp_def r)
qed

lemma disconnect_device_out:
  "\<exists>d. filter (\<lambda>e. em_event e = ''device_disconnected'') (snd (disconnect h sid)) =
     map (\<lambda>s. Emit (ToRoom s) ''device_disconnected'' d)
       (case sessions h sid of
          None \<Rightarrow> []
        | Some usr \<Rightarrow> sessions_of (fst (disconnect h sid)) (User.ID usr))"
proof (cases "sessions h sid")
  case None
  then show ?thesis by (simp add: disconnect_unjoined)
next
  case (Some usr)
  show ?thesis
  proof (cases "userSessions h (User.ID usr)")
    case None
    then show ?thesis using Some by (simp add: disconnect_stale [OF Some None] sessions_of_def)
  next
    case l: (Some l)
    show ?thesis
    proof (cases "remove1 sid l = []")
      case True
      show ?thesis
        using Some by (simp add: disconnect_last [OF Some l True] sessions_of_def status_event_def)
    next
      case False
      show ?thesis
        using Some
        by (simp add: disconnect_other [OF Some l False] sessions_of_def filter_map comp_def)
    qed
  qed
qed

lemma disconnect_device_targets:
  "targets_of ''device_disconnected'' (snd (disconnect h sid)) =
     map ToRoom (case sessions h sid of
                   None \<Rightarrow> []
                 | Some usr \<Rightarrow> sessions_of (fst (disconnect h sid)) (User.ID usr))"
proof -
  from disconnect_device_out [of h sid] obtain d where
    "filter (\<lambda>e. em_event e = ''device_disconnected'') (snd (disconnect h sid)) =
     map (\<lambda>s. Emit (ToRoom s) ''device_disconnected'' d)
       (case sessions h sid of
          None \<Rightarrow> []
        | Some usr \<Rightarrow> sessions_of (fst (disconnect h sid)) (User.ID usr))" by blast
  then show ?thesis by (simp add: targets_of_def comp_def)
qed

lemma filter_deliveries:
  "filter P (deliveries g x out) = deliveries g x (filter P out)"
  by (induction out) (auto simp: deliveries_def)

lemma disconnect_device_deliveries:
  "targets_of ''device_disconnected'' (deliveries g x (snd (disconnect h sid))) =
     map ToRoom (filter (\<lambda>s. s \<in> joined_rooms g x)
       (case sessions h sid of
          None \<Rightarrow> []
        | Some usr \<Rightarrow> sessions_of (fst (disconnect h sid)) (User.ID usr)))"
proof -
  from disconnect_device_out [of h sid] obtain d where
    d: "filter (\<lambda>e. em_event e = ''device_disconnected'') (snd (disconnect h sid)) =
     map (\<lambda>s. Emit (ToRoom s) ''device_disconnected'' d)
       (case sessions h sid of
          None \<Rightarrow> []
        | Some usr \<Rightarrow> sessions_of (fst (disconnect h sid)) (User.ID usr))" by blast
  have r: "\<And>s ev d. receives g x (Emit (ToRoom s) ev d) = (s \<in> joined_rooms g x)"
    by (simp add: receives_def joined_rooms_def split: option.splits)
  show ?thesis
    unfolding targets_of_def filter_deliveries d
    by (simp add: deliveries_def filter_map comp_def r)
qed

lemma disconnect_rooms: "rooms (fst (disconnect h sid)) = rooms h"
  by (simp add: disconnect_def Let_def case_prod_beta split: option.splits)

lemma step_join: "step h (Join sid args) = join h sid args"
  by simp

lemma step_disconnect:
  "step h (Disconnect sid) = disconnect (h\<lparr>rooms := (rooms h)(sid := None)\<rparr>) sid"
  by simp

lemma closed_socket_frame:
  "sessions (h\<lparr>rooms := rs\<rparr>) = sessions h"
  "device_count (h\<lparr>rooms := rs\<rparr>) u = device_count h u"
  "listed_inv (h\<lparr>rooms := rs\<rparr>) = listed_inv h"
  by (simp_all add: device_count_def sessions_of_def listed_inv_def)

lemma eavesdrop_unfold:
  "eavesdrop =
     connection (fst (join_room (fst (join (connection
       (fst (join (connection (NewSocketIOHandler empty_redis int) ''d1'') ''d1'' (join_data ''alice'' ''phone'')))
       ''e1'') ''e1'' (join_data ''eve'' ''laptop''))) ''e1'' (room_data ''d1'' ''eve''))) ''d2''"
  by (simp add: eavesdrop_def case_prod_beta Let_def)

lemma eavesdrop_rooms: "rooms eavesdrop ''e1'' = Some {''e1'', ''d1''}"
  unfolding eavesdrop_unfold by (auto simp: scenario_defs)

lemma eavesdrop_devices:
  "userSessions eavesdrop ''alice'' = Some [''d1'']" "userSessions eavesdrop ''eve'' = Some [''e1'']"
  unfolding eavesdrop_unfold by (simp_all add: scenario_defs)

lemma eavesdrop_eve: "map_option User.ID (sessions eavesdrop ''e1'') = Some ''eve''"
  unfolding eavesdrop_unfold by (simp add: scenario_defs)

lemma join_rooms: "rooms (fst (join h sid args)) = rooms h"
  by (auto simp: join_def Let_def case_prod_beta time_Now_def split: list.splits jvalue.splits)

lemma alice_two_devices_rooms:
  "rooms alice_two_devices ''d1'' = Some {''d1''}" "rooms alice_two_devices ''d2'' = Some {''d2''}"
  unfolding alice_two_devices_unfold by (simp_all add: join_rooms connection_def NewSocketIOHandler_def)

section \<open>One message in, how many out\<close>

text \<open>
  C1: one \<^verbatim>\<open>message\<close> event with the content \<^verbatim>\<open>hi\<close>, sent by alice to the room
  \<^verbatim>\<open>general\<close>, reaches bob's socket ten times, and no copy has the content that was
  sent: the handler's loop appends \<^verbatim>\<open>Message i\<close> to the content before each broadcast.
\<close>

theorem one_message_in_ten_out:
  "map em_content (deliveries two_users ''s2'' (snd (handleMessage two_users ''s1'' room_message))) =
     [''hiMessage 0'', ''hiMessage 1'', ''hiMessage 2'', ''hiMessage 3'', ''hiMessage 4'',
      ''hiMessage 5'', ''hiMessage 6'', ''hiMessage 7'', ''hiMessage 8'', ''hiMessage 9'']"
proof -
  have out: "snd (handleMessage two_users ''s1'' room_message) =
     concat (map (\<lambda>k. broadcastMessage two_users
                    ((msg_at (clock two_users) (ticks two_users + 3 * (k - 0)) ''text'' ''hi'' ''alice'' ''general'' [])
                       \<lparr>Content := ''hi'' @ ''Message '' @ show_int (int k)\<rparr>))
                 [0..<10])"
    unfolding room_message_loop by (rule message_loop_ok [OF two_users_faults])
  show ?thesis
    unfolding out upt_10 deliveries_def
    by (simp add: broadcastMessage_def msg_at_def em_content_def em_message_def receives_room
          two_users_rooms show_digits)
qed

section \<open>A failing store\<close>

text \<open>
  C2, as stated, fails: with the two users in the room and a Redis that rejects the next
  command, alice's message produces one \<^verbatim>\<open>error\<close> event for her own socket and
  nothing else; bob's socket receives nothing.
\<close>

theorem store_failure_counterexample:
  "snd (handleMessage store_down ''s1'' room_message) =
     [Emit (ToClient ''s1'') ''error'' (PObj [(''message'', VStr ''Failed to send message'')])] \<and>
   deliveries store_down ''s2'' (snd (handleMessage store_down ''s1'' room_message)) = []"
  unfolding room_message_loop
  by (simp add: message_loop_fail [OF store_down_faults] sendError_def deliveries_def receives_def)

text \<open>
  C2, amended: when the store rejects a message, the handler sends one \<^verbatim>\<open>error\<close>
  event with the text "Failed to send message" to the originating client and returns at
  once. Whichever store of the call fails, after \<open>k\<close> that succeeded: the emissions are
  the \<open>k\<close> broadcasts made before it and then the error event, so the message whose
  store failed is not broadcast and nothing follows the error; the store holds the \<open>k\<close>
  messages stored before it and not the one that failed; nothing is published and the
  registry is unchanged.
\<close>

theorem store_failure_stops_delivery:
  assumes "get_string data ''content'' \<noteq> []" and "get_string data ''sender'' \<noteq> []"
    and "k < 10" and "faults (redisService h) = replicate k False @ True # fs"
  shows "snd (handleMessage h client (JObject data # rest)) =
           concat (map (\<lambda>j. broadcastMessage h (broadcast_copy h data j)) [0..<k])
           @ [Emit (ToClient client) ''error'' (PObj [(''message'', VStr ''Failed to send message'')])] \<and>
         kv (redisService (fst (handleMessage h client (JObject data # rest)))) =
           foldl store_key (kv (redisService h)) (map (built_message h data) [0..<k]) \<and>
         faults (redisService (fst (handleMessage h client (JObject data # rest)))) = fs \<and>
         published (redisService (fst (handleMessage h client (JObject data # rest)))) = published (redisService h) \<and>
         sessions (fst (handleMessage h client (JObject data # rest))) = sessions h \<and>
         userSessions (fst (handleMessage h client (JObject data # rest))) = userSessions h"
proof -
  have lt: "0 + k < 10" using assms(3) by simp
  show ?thesis
    unfolding handleMessage_valid [OF assms(1,2)] message_loop_fail_after [OF assms(4) lt]
    by (simp add: sendError_def broadcast_copy_def [abs_def] built_message_def [abs_def])
qed

theorem store_failure_stops_delivery_witness:
  "get_string [(''content'', JString ''hi''), (''sender'', JString ''alice''), (''roomId'', JString ''general'')] ''content'' \<noteq> [] \<and>
   get_string [(''content'', JString ''hi''), (''sender'', JString ''alice''), (''roomId'', JString ''general'')] ''sender'' \<noteq> [] \<and>
   (1::nat) < 10 \<and>
   faults (redisService store_down_later) = replicate 1 False @ True # [] \<and>
   map em_target (snd (handleMessage store_down_later ''s1''
      [JObject [(''content'', JString ''hi''), (''sender'', JString ''alice''), (''roomId'', JString ''general'')]])) =
     [ToRoom ''general'', ToClient ''s1''] \<and>
   map em_content (snd (handleMessage store_down_later ''s1''
      [JObject [(''content'', JString ''hi''), (''sender'', JString ''alice''), (''roomId'', JString ''general'')]])) =
     [''hiMessage 0'', []] \<and>
   faults (redisService (fst (handleMessage store_down_later ''s1''
      [JObject [(''content'', JString ''hi''), (''sender'', JString ''alice''), (''roomId'', JString ''general'')]]))) = []"
proof -
  have c: "get_string [(''content'', JString ''hi''), (''sender'', JString ''alice''), (''roomId'', JString ''general'')] ''content'' \<noteq> []"
    and s: "get_string [(''content'', JString ''hi''), (''sender'', JString ''alice''), (''roomId'', JString ''general'')] ''sender'' \<noteq> []"
    by (simp_all add: get_string_def)
  have k: "(1::nat) < 10" by simp
  show ?thesis
    using store_failure_stops_delivery [OF c s k store_down_later_faults, of "''s1''" "[]"]
      c s store_down_later_faults
    by (simp add: broadcast_copy_def built_message_def msg_at_def broadcastMessage_def get_string_def
          em_content_def em_message_def show_digits)
qed

section \<open>Publishing on the relay\<close>

text \<open>
  C3: alice's room message is emitted to the room on this instance, ten times, and the
  handler publishes nothing: the list of published envelopes is as empty after the event
  as before, so no other instance hears of the message.
\<close>

theorem room_message_is_not_published:
  "targets_of ''message'' (snd (handleMessage two_users ''s1'' room_message)) =
     replicate 10 (ToRoom ''general'') \<and>
   published (redisService two_users) = [] \<and>
   published (redisService (fst (handleMessage two_users ''s1'' room_message))) = []"
proof -
  have out: "snd (handleMessage two_users ''s1'' room_message) =
     concat (map (\<lambda>k. broadcastMessage two_users
                    ((msg_at (clock two_users) (ticks two_users + 3 * (k - 0)) ''text'' ''hi'' ''alice'' ''general'' [])
                       \<lparr>Content := ''hi'' @ ''Message '' @ show_int (int k)\<rparr>))
                 [0..<10])"
    unfolding room_message_loop by (rule message_loop_ok [OF two_users_faults])
  have r: "replicate 10 (ToRoom ''general'') = map (\<lambda>k. ToRoom ''general'') [0..<10]"
    unfolding upt_10 by code_simp
  have t: "targets_of ''message'' (snd (handleMessage two_users ''s1'' room_message)) =
     replicate 10 (ToRoom ''general'')"
    unfolding out r upt_10 by (simp add: targets_of_def broadcastMessage_def msg_at_def)
  show ?thesis
    using t by (simp add: handleMessage_registry(4) two_users_published)
qed

section \<open>Validation of the message event\<close>

text \<open>
  C4: a \<^verbatim>\<open>message\<close> event whose content or sender is empty is answered by one
  \<^verbatim>\<open>error\<close> event with the text "Invalid message data" to the originating client and
  nothing else: no other emission, and the handler (its registry, the store and the
  outcomes still to come from Redis, hence no command sent) is unchanged.
\<close>

theorem handleMessage_rejects_invalid:
  assumes "get_string data ''content'' = [] \<or> get_string data ''sender'' = []"
  shows "handleMessage h client (JObject data # rest) =
           (h, [Emit (ToClient client) ''error'' (PObj [(''message'', VStr ''Invalid message data'')])])"
  using assms by (auto simp: handleMessage_def sendError_def Let_def)

theorem handleMessage_rejects_invalid_witness:
  "(get_string [(''content'', JString ''''), (''sender'', JString ''alice''), (''roomId'', JString ''general'')] ''content'' = []
      \<or> get_string [(''content'', JString ''''), (''sender'', JString ''alice''), (''roomId'', JString ''general'')] ''sender'' = [])
   \<and> handleMessage (NewSocketIOHandler empty_redis int) ''s1''
         [JObject [(''content'', JString ''''), (''sender'', JString ''alice''), (''roomId'', JString ''general'')]] =
       (NewSocketIOHandler empty_redis int,
        [Emit (ToClient ''s1'') ''error'' (PObj [(''message'', VStr ''Invalid message data'')])])"
proof -
  have c: "get_string [(''content'', JString ''''), (''sender'', JString ''alice''), (''roomId'', JString ''general'')] ''content'' = []
      \<or> get_string [(''content'', JString ''''), (''sender'', JString ''alice''), (''roomId'', JString ''general'')] ''sender'' = []"
    by (simp add: get_string_def)
  show ?thesis
    using c handleMessage_rejects_invalid [OF c, of "NewSocketIOHandler empty_redis int" "''s1''" "[]"]
    by simp
qed

section \<open>Joining twice\<close>

text \<open>
  C5: a socket that sends \<^verbatim>\<open>join\<close> twice for alice and then closes has joined and
  left, so no session of alice is live; the registry still lists the session as a device
  of alice, although the session itself is gone. (On runs in which no socket joins twice
  the device list is the one the claim describes: \<open>devices_of_run_from_start\<close>.)
\<close>

theorem rejoin_leaves_stale_device:
  "joined_not_left ''alice'' rejoin_run = [] \<and>
   sessions_of (fst (run (NewSocketIOHandler empty_redis int) rejoin_run)) ''alice'' = [''s1''] \<and>
   sessions (fst (run (NewSocketIOHandler empty_redis int) rejoin_run)) ''s1'' = None"
proof -
  have u: "fst (run (NewSocketIOHandler empty_redis int) rejoin_run) =
     fst (disconnect ((fst (join (fst (join (connection (NewSocketIOHandler empty_redis int) ''s1'') ''s1''
            (join_data ''alice'' ''phone'')))  ''s1'' (join_data ''alice'' ''phone'')))
          \<lparr>rooms := (rooms (fst (join (fst (join (connection (NewSocketIOHandler empty_redis int) ''s1'') ''s1''
            (join_data ''alice'' ''phone'')))  ''s1'' (join_data ''alice'' ''phone''))))(''s1'' := None)\<rparr>) ''s1'')"
    by (simp add: rejoin_run_def case_prod_beta Let_def)
  let ?h2 = "fst (join (fst (join (connection (NewSocketIOHandler empty_redis int) ''s1'') ''s1''
            (join_data ''alice'' ''phone'')))  ''s1'' (join_data ''alice'' ''phone''))"
  have us: "userSessions ?h2 ''alice'' = Some [''s1'', ''s1'']"
    by (simp add: join_valid_registry(1) [of _ "''alice''"] sessions_of_def NewSocketIOHandler_def)
  have "map_option User.ID (sessions ?h2 ''s1'') = Some ''alice''"
    by (simp add: join_valid_registry(2) [of _ "''alice''"])
  then obtain usr where usr: "sessions ?h2 ''s1'' = Some usr" "User.ID usr = ''alice''" by auto
  let ?h2' = "?h2\<lparr>rooms := (rooms ?h2)(''s1'' := None)\<rparr>"
  have usr': "sessions ?h2' ''s1'' = Some usr" using usr by simp
  have us': "userSessions ?h2' (User.ID usr) = Some [''s1'', ''s1'']" using us usr by simp
  have ne: "remove1 ''s1'' [''s1'', ''s1''] \<noteq> []" by simp
  have j: "joined_not_left ''alice'' rejoin_run = []"
    by (simp add: joined_not_left_def rejoin_run_def)
  show ?thesis
    unfolding u using j
    by (simp add: disconnect_other [OF usr' us' ne] sessions_of_def usr(2))
qed

section \<open>Presence follows the device count\<close>




section \<open>Target modes of a message\<close>

text \<open>
  C7, as stated, fails: a \<^verbatim>\<open>message\<close> event that names the room \<^verbatim>\<open>general\<close> and the
  receiver \<^verbatim>\<open>bob\<close> makes the handler build and emit messages that carry both, and they
  go to the room.
\<close>

theorem two_target_modes_counterexample:
  "map room_and_receiver (snd (handleMessage two_users ''s1'' both_targets_message)) =
     replicate 10 (Some (''general'', ''bob'')) \<and>
   map em_target (snd (handleMessage two_users ''s1'' both_targets_message)) =
     replicate 10 (ToRoom ''general'')"
proof -
  have out: "snd (handleMessage two_users ''s1'' both_targets_message) =
     concat (map (\<lambda>k. broadcastMessage two_users
                    ((msg_at (clock two_users) (ticks two_users + 3 * (k - 0)) ''text'' ''hi'' ''alice'' ''general'' ''bob'')
                       \<lparr>Content := ''hi'' @ ''Message '' @ show_int (int k)\<rparr>))
                 [0..<10])"
    unfolding both_targets_loop by (rule message_loop_ok [OF two_users_faults])
  have r: "replicate 10 (Some (''general'', ''bob'')) = map (\<lambda>k. Some (''general'', ''bob'')) [0..<10]"
    "replicate 10 (ToRoom ''general'') = map (\<lambda>k. ToRoom ''general'') [0..<10]"
    unfolding upt_10 by code_simp+
  show ?thesis
    unfolding out r upt_10
    by (simp add: broadcastMessage_def msg_at_def room_and_receiver_def em_message_def)
qed

text \<open>
  C7, amended: a message may carry a room and a receiver at once; \<open>broadcastMessage\<close>
  picks one path by precedence. A non-empty room wins: the message goes to the room. With
  no room and a non-empty receiver it goes, wrapped in an object, to the private room of
  each session of the receiver. With neither it goes to every connected socket.
\<close>

theorem broadcastMessage_one_path:
  "broadcastMessage h m =
     (if Room m \<noteq> [] then [Emit (ToRoom (Room m)) ''message'' (PMsg m)]
      else if Receiver m \<noteq> [] then
        map (\<lambda>s. Emit (ToRoom s) ''message'' (PObj [(''message'', VMsg m)])) (sessions_of h (Receiver m))
      else [Emit ToAll ''message'' (PMsg m)])"
  by (simp add: broadcastMessage_def broadcastToUserDevices_eq)

theorem broadcastMessage_one_path_witness:
  "broadcastMessage two_users (relay_message\<lparr>Receiver := ''bob''\<rparr>) =
     [Emit (ToRoom ''general'') ''message'' (PMsg (relay_message\<lparr>Receiver := ''bob''\<rparr>))] \<and>
   broadcastMessage two_users (relay_message\<lparr>Receiver := ''bob'', Room := []\<rparr>) =
     [Emit (ToRoom ''s2'') ''message'' (PObj [(''message'', VMsg (relay_message\<lparr>Receiver := ''bob'', Room := []\<rparr>))])] \<and>
   broadcastMessage two_users (relay_message\<lparr>Room := []\<rparr>) =
     [Emit ToAll ''message'' (PMsg (relay_message\<lparr>Room := []\<rparr>))]"
  using broadcastMessage_one_path [of two_users "relay_message\<lparr>Receiver := ''bob''\<rparr>"]
    broadcastMessage_one_path [of two_users "relay_message\<lparr>Receiver := ''bob'', Room := []\<rparr>"]
    broadcastMessage_one_path [of two_users "relay_message\<lparr>Room := []\<rparr>"]
  by (simp add: relay_message_def sessions_of_def two_users_devices)

section \<open>Replay on the relay\<close>



section \<open>The user session record\<close>

text \<open>
  C10: the record \<^verbatim>\<open>user_session:<user>\<close> holds one session id, the one of the latest
  join, and only the device list in memory tracks the full device set. When a user joins
  with the session \<open>s1\<close> and then with \<open>s2\<close> (Redis answering), the record is \<open>s1\<close>
  and then \<open>s2\<close>, while the device list has \<open>s1\<close> and \<open>s2\<close> appended. After \<open>s2\<close>
  disconnects the record is still \<open>s2\<close>, which is no longer a session, although \<open>s1\<close>
  is still joined; the device list has lost its first \<open>s2\<close>, so that for a new session
  \<open>s2\<close> it is the list before the joins with \<open>s1\<close> appended, without \<open>s2\<close>.
\<close>

theorem user_session_record_is_latest_join:
  assumes "userName \<noteq> []" and "s1 \<noteq> s2" and "faults (redisService h) = []"
    and "join_name args1 = userName" and "join_name args2 = userName"
  shows "(let h1 = fst (join h s1 args1);
              h2 = fst (join h1 s2 args2);
              h3 = fst (disconnect h2 s2)
          in kv (redisService h1) (''user_session:'' @ userName) = Some (RString s1) \<and>
             kv (redisService h2) (''user_session:'' @ userName) = Some (RString s2) \<and>
             s1 \<in> set (sessions_of h2 userName) \<and> s2 \<in> set (sessions_of h2 userName) \<and>
             kv (redisService h3) (''user_session:'' @ userName) = Some (RString s2) \<and>
             sessions h3 s2 = None \<and>
             map_option User.ID (sessions h3 s1) = Some userName \<and>
             s1 \<in> set (sessions_of h3 userName) \<and>
             sessions_of h2 userName = sessions_of h userName @ [s1, s2] \<and>
             sessions_of h3 userName = remove1 s2 (sessions_of h userName @ [s1, s2]) \<and>
             (s2 \<notin> set (sessions_of h userName) \<longrightarrow>
                sessions_of h3 userName = sessions_of h userName @ [s1] \<and>
                s2 \<notin> set (sessions_of h3 userName)))"
proof -
  define h1 where "h1 = fst (join h s1 args1)"
  define h2 where "h2 = fst (join h1 s2 args2)"
  define h3 where "h3 = fst (disconnect h2 s2)"
  note a1 = assms(4) assms(1)
  note a2 = assms(5) assms(1)
  have r1: "redisService h1 = (redisService h)\<lparr>kv := (kv (redisService h))(''user_session:'' @ userName \<mapsto> RString s1)\<rparr>"
    unfolding h1_def join_valid_redis [OF a1] by (rule StoreUserSession_ok [OF assms(3)])
  have f1: "faults (redisService h1) = []" using assms(3) by (simp add: r1)
  have r2: "redisService h2 = (redisService h1)\<lparr>kv := (kv (redisService h1))(''user_session:'' @ userName \<mapsto> RString s2)\<rparr>"
    unfolding h2_def join_valid_redis [OF a2] by (rule StoreUserSession_ok [OF f1])
  have u1: "userSessions h1 userName = Some (sessions_of h userName @ [s1])"
    unfolding h1_def by (simp add: join_valid_registry(1) [OF a1])
  have u2: "userSessions h2 userName = Some (sessions_of h userName @ [s1, s2])"
    unfolding h2_def using u1 by (simp add: join_valid_registry(1) [OF a2] sessions_of_def)
  have s2: "map_option User.ID (sessions h2 s2) = Some userName"
    unfolding h2_def by (rule join_valid_registry(2) [OF a2])
  have s1: "map_option User.ID (sessions h2 s1) = Some userName"
    unfolding h2_def h1_def
    using join_valid_registry(3) [OF a2 assms(2), of "fst (join h s1 args1)"] join_valid_registry(2) [OF a1, of h s1]
    by simp
  from s2 obtain usr where usr: "sessions h2 s2 = Some usr" "User.ID usr = userName" by auto
  have ne: "remove1 s2 (sessions_of h userName @ [s1, s2]) \<noteq> []"
  proof
    assume "remove1 s2 (sessions_of h userName @ [s1, s2]) = []"
    moreover have "s1 \<in> set (remove1 s2 (sessions_of h userName @ [s1, s2]))"
      using assms(2) by (simp add: in_set_remove1)
    ultimately show False by simp
  qed
  have d: "disconnect h2 s2 =
           (h2\<lparr>userSessions := (userSessions h2)(userName \<mapsto> remove1 s2 (sessions_of h userName @ [s1, s2])),
               sessions := (sessions h2)(s2 := None)\<rparr>,
            map (\<lambda>s. Emit (ToRoom s) ''device_disconnected''
                   (PObj [(''sessionId'', VStr s2),
                          (''deviceCount'', VInt (int (length (remove1 s2 (sessions_of h userName @ [s1, s2])))))]))
              (remove1 s2 (sessions_of h userName @ [s1, s2])))"
  proof -
    have u2': "userSessions h2 (User.ID usr) = Some (sessions_of h userName @ [s1, s2])"
      using u2 usr(2) by simp
    show ?thesis using disconnect_other [OF usr(1) u2' ne] by (simp add: usr(2))
  qed
  have k1: "kv (redisService h1) (''user_session:'' @ userName) = Some (RString s1)" by (simp add: r1)
  have k2: "kv (redisService h2) (''user_session:'' @ userName) = Some (RString s2)" by (simp add: r2)
  have k3: "kv (redisService h3) (''user_session:'' @ userName) = Some (RString s2)"
    unfolding h3_def d using k2 by simp
  have m2: "s1 \<in> set (sessions_of h2 userName) \<and> s2 \<in> set (sessions_of h2 userName)"
    by (simp add: sessions_of_def u2)
  have g3: "sessions h3 s2 = None" unfolding h3_def d by simp
  have l3: "map_option User.ID (sessions h3 s1) = Some userName"
    unfolding h3_def d using s1 assms(2) by simp
  have m3: "s1 \<in> set (sessions_of h3 userName)"
    unfolding h3_def d using assms(2) by (simp add: sessions_of_def in_set_remove1)
  have e2: "sessions_of h2 userName = sessions_of h userName @ [s1, s2]"
    by (simp add: sessions_of_def u2)
  have e3: "sessions_of h3 userName = remove1 s2 (sessions_of h userName @ [s1, s2])"
    unfolding h3_def d by (simp add: sessions_of_def)
  have e4: "s2 \<notin> set (sessions_of h userName) \<longrightarrow>
              sessions_of h3 userName = sessions_of h userName @ [s1] \<and>
              s2 \<notin> set (sessions_of h3 userName)"
    unfolding e3 using assms(2) by (simp add: remove1_append)
  show ?thesis
    using k1 k2 k3 m2 g3 l3 m3 e2 e3 e4 assms(2) unfolding Let_def h1_def h2_def h3_def by simp
qed

theorem user_session_record_is_latest_join_witness:
  "''alice'' \<noteq> [] \<and> ''d1'' \<noteq> ''d2'' \<and> faults (redisService (NewSocketIOHandler empty_redis int)) = [] \<and>
   join_name (join_data ''alice'' ''phone'') = ''alice'' \<and> join_name (join_data ''alice'' ''laptop'') = ''alice'' \<and>
   (let h1 = fst (join (NewSocketIOHandler empty_redis int) ''d1'' (join_data ''alice'' ''phone''));
        h2 = fst (join h1 ''d2'' (join_data ''alice'' ''laptop''));
        h3 = fst (disconnect h2 ''d2'')
    in kv (redisService h3) ''user_session:alice'' = Some (RString ''d2'') \<and>
       sessions h3 ''d2'' = None \<and>
       map_option User.ID (sessions h3 ''d1'') = Some ''alice'' \<and>
       sessions_of h2 ''alice'' = [''d1'', ''d2''] \<and>
       sessions_of h3 ''alice'' = [''d1''])"
proof -
  have a: "''alice'' \<noteq> []" and b: "''d1'' \<noteq> ''d2''" by simp_all
  have f: "faults (redisService (NewSocketIOHandler empty_redis int)) = []"
    by (simp add: NewSocketIOHandler_def empty_redis_def)
  have j1: "join_name (join_data ''alice'' ''phone'') = ''alice''"
    and j2: "join_name (join_data ''alice'' ''laptop'') = ''alice''" by simp_all
  show ?thesis
    using user_session_record_is_latest_join [OF a b f j1 j2] f
    by (simp add: Let_def sessions_of_def NewSocketIOHandler_def)
qed

end
